theory Spec2Isabelle
  imports Main "HOL-Library.Word"
begin

unbundle bit_operations_syntax

section \<open>Fatal outcomes\<close>

text \<open>
  \<open>EFM_ASSERT(false)\<close> halts the processor (the vendor's assert hook never returns), so
  a failed assertion ends the run: \<open>AssertFailed\<close>. Where C leaves the behaviour of the
  source undefined (an array index outside the array, a signed counter leaving the range
  of \<open>int\<close>, a shift by 32 bits or more) the model stops with \<open>UndefinedBehaviour\<close>
  instead of inventing a value.
\<close>

datatype fault = AssertFailed | UndefinedBehaviour

definition bind_result :: "fault + 'a \<Rightarrow> ('a \<Rightarrow> fault + 'b) \<Rightarrow> fault + 'b" where
  "bind_result r f = (case r of Inl e \<Rightarrow> Inl e | Inr x \<Rightarrow> f x)"

section \<open>sleep\_routines.c: the energy-mode vote counters\<close>

text \<open>
  Modelled from the spec: the header \<open>sleep_routines.h\<close>, which defines
  \<open>EM0\<close> .. \<open>EM4\<close> and \<open>MAX_ENERGY_MODES\<close>, is not among the sources. The
  levels are an ordered finite set, numbered from the shallowest; \<open>enter_sleep\<close> names
  \<open>EM0\<close> .. \<open>EM3\<close> and one deeper level remains, so there are five of them.
\<close>

definition EM0 :: nat where "EM0 = 0"
definition EM1 :: nat where "EM1 = 1"
definition EM2 :: nat where "EM2 = 2"
definition EM3 :: nat where "EM3 = 3"
definition EM4 :: nat where "EM4 = 4"
definition MAX_ENERGY_MODES :: nat where "MAX_ENERGY_MODES = 5"

text \<open>
  \<open>static int lowest_energy_modes[MAX_ENERGY_MODES]\<close> is a list of
  \<open>MAX_ENERGY_MODES\<close> integers; \<open>INT_MAX\<close> and \<open>INT_MIN\<close> bound the 32-bit
  \<open>int\<close> of the target.
\<close>

type_synonym energy_modes = "int list"

definition INT_MAX :: int where "INT_MAX = 2147483647"
definition INT_MIN :: int where "INT_MIN = - 2147483648"

definition energy_modes_ok :: "energy_modes \<Rightarrow> bool" where
  "energy_modes_ok modes = (length modes = MAX_ENERGY_MODES)"

text \<open>The data model's invariant: no counter is negative.\<close>

definition votes_nonneg :: "energy_modes \<Rightarrow> bool" where
  "votes_nonneg modes = list_all (\<lambda>c. 0 \<le> c) modes"

text \<open>\<open>for (int i = 0; i < MAX_ENERGY_MODES - 1; i++) lowest_energy_modes[i] = 0;\<close>\<close>

function sleep_open_loop :: "nat \<Rightarrow> energy_modes \<Rightarrow> energy_modes" where
  "sleep_open_loop i modes =
     (if i < MAX_ENERGY_MODES - 1 then sleep_open_loop (i + 1) (modes[i := 0]) else modes)"
  by pat_completeness auto
termination
  by (relation "measure (\<lambda>(i, modes). MAX_ENERGY_MODES - 1 - i)") auto

declare sleep_open_loop.simps [simp del]

definition sleep_open :: "energy_modes \<Rightarrow> energy_modes" where
  "sleep_open modes = sleep_open_loop 0 modes"

text \<open>
  \<open>lowest_energy_modes[EM]++; EFM_ASSERT(lowest_energy_modes[EM] < 5);\<close> The counter
  is written before the assertion is checked; a failed assertion halts, so the written
  array is not seen again.
\<close>

definition sleep_block_mode :: "nat \<Rightarrow> energy_modes \<Rightarrow> fault + energy_modes" where
  "sleep_block_mode EM modes =
     (if \<not> EM < length modes then Inl UndefinedBehaviour
      else if modes ! EM = INT_MAX then Inl UndefinedBehaviour
      else let modes' = modes[EM := modes ! EM + 1]
           in if modes' ! EM < 5 then Inr modes' else Inl AssertFailed)"

text \<open>\<open>lowest_energy_modes[EM]--; EFM_ASSERT(lowest_energy_modes[EM] >= 0);\<close>\<close>

definition sleep_unblock_mode :: "nat \<Rightarrow> energy_modes \<Rightarrow> fault + energy_modes" where
  "sleep_unblock_mode EM modes =
     (if \<not> EM < length modes then Inl UndefinedBehaviour
      else if modes ! EM = INT_MIN then Inl UndefinedBehaviour
      else let modes' = modes[EM := modes ! EM - 1]
           in if modes' ! EM \<ge> 0 then Inr modes' else Inl AssertFailed)"

text \<open>
  \<open>enter_sleep\<close> makes at most one call into the vendor's energy management unit; the
  model returns that call, \<open>None\<close> when it returns without one.
\<close>

datatype emu_call = EMU_EnterEM1 | EMU_EnterEM2 | EMU_EnterEM3

definition enter_sleep :: "energy_modes \<Rightarrow> emu_call option" where
  "enter_sleep modes =
     (if modes ! EM0 > 0 then None
      else if modes ! EM1 > 0 then None
      else if modes ! EM2 > 0 then Some EMU_EnterEM1
      else if modes ! EM3 > 0 then Some EMU_EnterEM2
      else Some EMU_EnterEM3)"

text \<open>The energy mode a call into the energy management unit enters.\<close>

fun entered_mode :: "emu_call \<Rightarrow> nat" where
  "entered_mode EMU_EnterEM1 = EM1"
| "entered_mode EMU_EnterEM2 = EM2"
| "entered_mode EMU_EnterEM3 = EM3"

text \<open>
  \<open>while (i < MAX_ENERGY_MODES) { if (lowest_energy_modes[i] != 0) return i; else i++; }
  return MAX_ENERGY_MODES - 1;\<close>
\<close>

function current_block_energy_mode_loop :: "nat \<Rightarrow> energy_modes \<Rightarrow> nat" where
  "current_block_energy_mode_loop i modes =
     (if i < MAX_ENERGY_MODES
      then (if modes ! i \<noteq> 0 then i else current_block_energy_mode_loop (i + 1) modes)
      else MAX_ENERGY_MODES - 1)"
  by pat_completeness auto
termination
  by (relation "measure (\<lambda>(i, modes). MAX_ENERGY_MODES - i)") auto

declare current_block_energy_mode_loop.simps [simp del]

text \<open>
  The function's effect on the module's state is part of what is claimed about it, so
  the model returns the value together with the array as the call leaves it.
\<close>

definition current_block_energy_mode :: "energy_modes \<Rightarrow> nat \<times> energy_modes" where
  "current_block_energy_mode modes = (current_block_energy_mode_loop 0 modes, modes)"

subsection \<open>Sequences of block and unblock calls\<close>

datatype sleep_call = Block nat | Unblock nat

fun do_sleep_call :: "sleep_call \<Rightarrow> energy_modes \<Rightarrow> fault + energy_modes" where
  "do_sleep_call (Block EM) modes = sleep_block_mode EM modes"
| "do_sleep_call (Unblock EM) modes = sleep_unblock_mode EM modes"

fun run_sleep_calls :: "sleep_call list \<Rightarrow> energy_modes \<Rightarrow> fault + energy_modes" where
  "run_sleep_calls [] modes = Inr modes"
| "run_sleep_calls (c # cs) modes =
     (case do_sleep_call c modes of Inl e \<Rightarrow> Inl e | Inr modes' \<Rightarrow> run_sleep_calls cs modes')"

fun call_level :: "sleep_call \<Rightarrow> nat" where
  "call_level (Block EM) = EM"
| "call_level (Unblock EM) = EM"

text \<open>
  The levels of the block calls not yet answered by an unblock call, given those
  outstanding before the sequence; \<open>None\<close> when an unblock call has no block call to
  answer. A sequence is pairwise balanced per level when it starts and ends with nothing
  outstanding.
\<close>

fun outstanding :: "sleep_call list \<Rightarrow> nat list \<Rightarrow> nat list option" where
  "outstanding [] out = Some out"
| "outstanding (Block EM # cs) out = outstanding cs (EM # out)"
| "outstanding (Unblock EM # cs) out =
     (if EM \<in> set out then outstanding cs (remove1 EM out) else None)"

definition balanced :: "sleep_call list \<Rightarrow> bool" where
  "balanced cs = (outstanding cs [] = Some [])"

section \<open>scheduler.c: the pending-event mask\<close>

text \<open>\<open>static unsigned int event_scheduled\<close>, 32 bits wide on the target.\<close>

definition scheduler_open :: "32 word \<Rightarrow> 32 word" where
  "scheduler_open event_scheduled = 0"

definition add_scheduled_event :: "32 word \<Rightarrow> 32 word \<Rightarrow> 32 word" where
  "add_scheduled_event event event_scheduled = event_scheduled OR event"

definition remove_scheduled_event :: "32 word \<Rightarrow> 32 word \<Rightarrow> 32 word" where
  "remove_scheduled_event event event_scheduled = event_scheduled AND NOT event"

definition get_scheduled_events :: "32 word \<Rightarrow> 32 word" where
  "get_scheduled_events event_scheduled = event_scheduled"

text \<open>
  The consumer's drain: each serviced event is cleared with
  \<open>remove_scheduled_event\<close>, in the order the consumer services them.
\<close>

fun drain :: "32 word list \<Rightarrow> 32 word \<Rightarrow> 32 word" where
  "drain [] event_scheduled = event_scheduled"
| "drain (event # events) event_scheduled =
     drain events (remove_scheduled_event event event_scheduled)"

section \<open>i2c.c: the bus transaction state machine\<close>

datatype OPERATION_MODE = "write" | read

text \<open>The enumerators' values, as \<open>(device_address << 1) | read\<close> uses them.\<close>

fun OPERATION_MODE_val :: "OPERATION_MODE \<Rightarrow> 32 word" where
  "OPERATION_MODE_val write = 0"
| "OPERATION_MODE_val read = 1"

datatype DEFINED_STATES =
  initialize_device_write
| write_desired_register
| initialize_device_read
| write_data
| recieve_data
| stop

text \<open>
  An \<open>I2C_TypeDef *\<close> is the address of one of the two bus controllers or some other
  address. Of a controller's registers the model keeps what the driver does to them: the
  commands written to \<open>CMD\<close> and the values written to \<open>TXDATA\<close>, in order. The
  command bits are the vendor's, kept symbolic.
\<close>

datatype I2C_TypeDef = I2C0 | I2C1 | I2C_other

datatype I2C_CMD = I2C_CMD_START | I2C_CMD_STOP | I2C_CMD_ACK | I2C_CMD_NACK

datatype reg_write = CMD I2C_CMD | TXDATA "32 word"

text \<open>\<open>I2C_EM_BLOCK\<close> of i2c.h.\<close>

definition I2C_EM_BLOCK :: nat where "I2C_EM_BLOCK = EM2"

text \<open>
  \<open>I2C_STATE_MACHINE\<close> of i2c.h. The field \<open>data\<close> is a pointer to a
  \<open>uint32_t\<close>: an address into the memory of the system below.
\<close>

record I2C_STATE_MACHINE =
  i2cx :: I2C_TypeDef
  device_address :: "32 word"
  available :: bool
  mode :: OPERATION_MODE
  num_of_data_bytes :: "32 word"
  desired_register_address :: "32 word"
  data :: nat
  I2C_CB :: "32 word"
  current_state :: DEFINED_STATES

text \<open>
  The state the driver runs on: its two private state machines, the sleep module's
  counters, the scheduler's mask, the \<open>uint32_t\<close> objects that data pointers refer to,
  and the hardware: whether a controller's \<open>STATE\<close> register reads idle, and the
  register writes made so far (oldest first).
\<close>

record system =
  i2c0_state :: I2C_STATE_MACHINE
  i2c1_state :: I2C_STATE_MACHINE
  lowest_energy_modes :: energy_modes
  event_scheduled :: "32 word"
  memory :: "nat \<Rightarrow> 32 word"
  bus_idle :: "I2C_TypeDef \<Rightarrow> bool"
  reg_writes :: "(I2C_TypeDef \<times> reg_write) list"

text \<open>An \<open>I2C_STATE_MACHINE *\<close> is \<open>&i2c0_state\<close> or \<open>&i2c1_state\<close>.\<close>

datatype sm_ptr = Ptr_i2c0_state | Ptr_i2c1_state

fun deref :: "sm_ptr \<Rightarrow> system \<Rightarrow> I2C_STATE_MACHINE" where
  "deref Ptr_i2c0_state s = i2c0_state s"
| "deref Ptr_i2c1_state s = i2c1_state s"

fun assign :: "sm_ptr \<Rightarrow> I2C_STATE_MACHINE \<Rightarrow> system \<Rightarrow> system" where
  "assign Ptr_i2c0_state sm s = s\<lparr>i2c0_state := sm\<rparr>"
| "assign Ptr_i2c1_state sm s = s\<lparr>i2c1_state := sm\<rparr>"

definition hw_write :: "I2C_TypeDef \<Rightarrow> reg_write \<Rightarrow> system \<Rightarrow> system" where
  "hw_write i2c w s = s\<lparr>reg_writes := reg_writes s @ [(i2c, w)]\<rparr>"

text \<open>
  \<open>Ack_Func\<close>. In \<open>write_data\<close> the byte sent is
  \<open>(*data >> (8 * num_of_data_bytes)) & 0xff\<close>, the count already decremented (an
  unsigned decrement: it wraps at zero); the shift is undefined from 32 bits on.
\<close>

definition Ack_Func :: "sm_ptr \<Rightarrow> system \<Rightarrow> fault + system" where
  "Ack_Func i2c_sm s =
     (let sm = deref i2c_sm s in
      case current_state sm of
        initialize_device_write \<Rightarrow>
          Inr (assign i2c_sm
                 (sm\<lparr>current_state :=
                       (case mode sm of read \<Rightarrow> write_desired_register | write \<Rightarrow> write_data)\<rparr>)
                 (hw_write (i2cx sm) (TXDATA (desired_register_address sm)) s))
      | write_desired_register \<Rightarrow>
          Inr (assign i2c_sm (sm\<lparr>current_state := initialize_device_read\<rparr>)
                 (hw_write (i2cx sm)
                    (TXDATA (push_bit 1 (device_address sm) OR OPERATION_MODE_val read))
                    (hw_write (i2cx sm) (CMD I2C_CMD_START) s)))
      | initialize_device_read \<Rightarrow> Inr s
      | write_data \<Rightarrow>
          (let n = num_of_data_bytes sm - 1; sh = unat (8 * n) in
           if \<not> sh < 32 then Inl UndefinedBehaviour
           else
             let s1 = hw_write (i2cx sm) (TXDATA (drop_bit sh (memory s (data sm)) AND 0xff)) s
             in if n = 0
                then Inr (assign i2c_sm (sm\<lparr>num_of_data_bytes := n, current_state := recieve_data\<rparr>)
                            (hw_write (i2cx sm) (CMD I2C_CMD_STOP) s1))
                else Inr (assign i2c_sm (sm\<lparr>num_of_data_bytes := n\<rparr>) s1))
      | recieve_data \<Rightarrow> Inr s
      | stop \<Rightarrow> Inl AssertFailed)"

text \<open>
  \<open>Rxdatav_Func\<close>. \<open>RXDATA\<close> is what the read of the controller's receive register
  returns: the received byte in bits 7..0, zero above. The masks are
  \<open>~(0xff << (8 * num_of_data_bytes))\<close> and \<open>RXDATA << (8 * num_of_data_bytes)\<close>,
  undefined from 32 bits on; below 32 bits they are computed on 32-bit words, as the
  target's compiler computes them (\<open>0xff << 24\<close> included). \<open>write_data\<close> has
  no case of its own and falls to \<open>default\<close>.
\<close>

definition Rxdatav_Func :: "8 word \<Rightarrow> sm_ptr \<Rightarrow> system \<Rightarrow> fault + system" where
  "Rxdatav_Func RXDATA i2c_sm s =
     (let sm = deref i2c_sm s in
      case current_state sm of
        initialize_device_write \<Rightarrow> Inl AssertFailed
      | write_desired_register \<Rightarrow> Inl AssertFailed
      | initialize_device_read \<Rightarrow>
          (let n = num_of_data_bytes sm - 1; sh = unat (8 * n) in
           if \<not> sh < 32 then Inl UndefinedBehaviour
           else
             let d = (memory s (data sm) AND NOT (push_bit sh 0xff)) OR push_bit sh (ucast RXDATA);
                 s1 = s\<lparr>memory := (memory s)(data sm := d)\<rparr>
             in if n > 0
                then Inr (assign i2c_sm (sm\<lparr>num_of_data_bytes := n\<rparr>)
                            (hw_write (i2cx sm) (CMD I2C_CMD_ACK) s1))
                else Inr (assign i2c_sm (sm\<lparr>num_of_data_bytes := n, current_state := recieve_data\<rparr>)
                            (hw_write (i2cx sm) (CMD I2C_CMD_STOP)
                               (hw_write (i2cx sm) (CMD I2C_CMD_NACK) s1))))
      | write_data \<Rightarrow> Inl AssertFailed
      | recieve_data \<Rightarrow> Inl AssertFailed
      | stop \<Rightarrow> Inl AssertFailed)"

text \<open>\<open>Stop_Func\<close>; \<open>write_data\<close> falls to \<open>default\<close> here too.\<close>

definition Stop_Func :: "sm_ptr \<Rightarrow> system \<Rightarrow> fault + system" where
  "Stop_Func i2c_sm s =
     (let sm = deref i2c_sm s in
      case current_state sm of
        initialize_device_write \<Rightarrow> Inl AssertFailed
      | write_desired_register \<Rightarrow> Inl AssertFailed
      | initialize_device_read \<Rightarrow> Inl AssertFailed
      | recieve_data \<Rightarrow>
          bind_result (sleep_unblock_mode I2C_EM_BLOCK (lowest_energy_modes s)) (\<lambda>modes.
            let s1 = s\<lparr>lowest_energy_modes := modes\<rparr>;
                s2 = assign i2c_sm (sm\<lparr>available := True, current_state := initialize_device_write\<rparr>) s1
            in Inr (s2\<lparr>event_scheduled := add_scheduled_event (I2C_CB sm) (event_scheduled s2)\<rparr>))
      | write_data \<Rightarrow> Inl AssertFailed
      | stop \<Rightarrow> Inl AssertFailed)"

text \<open>
  \<open>while (!i2c_local_sm->available);\<close> Nothing in the loop changes the flag: run on
  its own, the loop returns at once or never (\<open>None\<close>).
\<close>

partial_function (option) wait_available :: "sm_ptr \<Rightarrow> system \<Rightarrow> unit option" where
  "wait_available i2c_local_sm s =
     (if \<not> available (deref i2c_local_sm s) then wait_available i2c_local_sm s else Some ())"

text \<open>
  \<open>i2c_start\<close>. A pointer that is neither controller fails the first assertion. The
  second assertion reads the controller's \<open>STATE\<close> register.
\<close>

definition i2c_start ::
  "I2C_TypeDef \<Rightarrow> 32 word \<Rightarrow> OPERATION_MODE \<Rightarrow> nat \<Rightarrow> 32 word \<Rightarrow> 32 word \<Rightarrow> 32 word \<Rightarrow>
   system \<Rightarrow> (fault + system) option" where
  "i2c_start i2c device_address' mode' data' bytes_expected desired_register_address' app_cb s =
     (case (case i2c of I2C0 \<Rightarrow> Some Ptr_i2c0_state | I2C1 \<Rightarrow> Some Ptr_i2c1_state
            | I2C_other \<Rightarrow> None) of
        None \<Rightarrow> Some (Inl AssertFailed)
      | Some i2c_local_sm \<Rightarrow>
          (case wait_available i2c_local_sm s of
             None \<Rightarrow> None
           | Some u \<Rightarrow>
               Some (if \<not> bus_idle s i2c then Inl AssertFailed
                     else bind_result (sleep_block_mode I2C_EM_BLOCK (lowest_energy_modes s))
                       (\<lambda>modes.
                          let s1 = s\<lparr>lowest_energy_modes := modes\<rparr>;
                              s2 = assign i2c_local_sm
                                     \<lparr>i2cx = i2c, device_address = device_address',
                                      available = False, mode = mode',
                                      num_of_data_bytes = bytes_expected,
                                      desired_register_address = desired_register_address',
                                      data = data', I2C_CB = app_cb,
                                      current_state = initialize_device_write\<rparr> s1
                          in Inr (hw_write i2c
                                    (TXDATA (push_bit 1 device_address' OR OPERATION_MODE_val write))
                                    (hw_write i2c (CMD I2C_CMD_START) s2))))))"

text \<open>\<open>i2c_available\<close>.\<close>

definition i2c_available :: "I2C_TypeDef \<Rightarrow> system \<Rightarrow> bool" where
  "i2c_available i2c s =
     (case i2c of I2C0 \<Rightarrow> available (i2c0_state s) | I2C1 \<Rightarrow> available (i2c1_state s)
      | I2C_other \<Rightarrow> False)"

text \<open>
  The interrupt handlers. \<open>int_flag\<close> is \<open>IF & IEN\<close>, of which the handlers test three
  bits; the handlers for the set bits run in the order acknowledge, receive, stop. The
  write that clears the flags in \<open>IFC\<close> does not reach the driver's state.
\<close>

record int_flag =
  I2C_IF_ACK :: bool
  I2C_IF_RXDATAV :: bool
  I2C_IF_MSTOP :: bool

definition I2C0_IRQHandler :: "int_flag \<Rightarrow> 8 word \<Rightarrow> system \<Rightarrow> fault + system" where
  "I2C0_IRQHandler int_flag RXDATA s =
     bind_result (if I2C_IF_ACK int_flag then Ack_Func Ptr_i2c0_state s else Inr s) (\<lambda>s.
     bind_result (if I2C_IF_RXDATAV int_flag then Rxdatav_Func RXDATA Ptr_i2c0_state s else Inr s) (\<lambda>s.
     if I2C_IF_MSTOP int_flag then Stop_Func Ptr_i2c0_state s else Inr s))"

definition I2C1_IRQHandler :: "int_flag \<Rightarrow> 8 word \<Rightarrow> system \<Rightarrow> fault + system" where
  "I2C1_IRQHandler int_flag RXDATA s =
     bind_result (if I2C_IF_ACK int_flag then Ack_Func Ptr_i2c1_state s else Inr s) (\<lambda>s.
     bind_result (if I2C_IF_RXDATAV int_flag then Rxdatav_Func RXDATA Ptr_i2c1_state s else Inr s) (\<lambda>s.
     if I2C_IF_MSTOP int_flag then Stop_Func Ptr_i2c1_state s else Inr s))"

subsection \<open>Sub-events and their delivery\<close>

text \<open>
  A sub-event is one interrupt with one of the three flags set; a received byte comes
  with the receive flag.
\<close>

datatype sub_event = AddressAcknowledged | ByteAvailable "8 word" | StopConditionObserved

fun flag_of :: "sub_event \<Rightarrow> int_flag" where
  "flag_of AddressAcknowledged =
     \<lparr>I2C_IF_ACK = True, I2C_IF_RXDATAV = False, I2C_IF_MSTOP = False\<rparr>"
| "flag_of (ByteAvailable b) =
     \<lparr>I2C_IF_ACK = False, I2C_IF_RXDATAV = True, I2C_IF_MSTOP = False\<rparr>"
| "flag_of StopConditionObserved =
     \<lparr>I2C_IF_ACK = False, I2C_IF_RXDATAV = False, I2C_IF_MSTOP = True\<rparr>"

fun rxdata_of :: "sub_event \<Rightarrow> 8 word" where
  "rxdata_of (ByteAvailable b) = b"
| "rxdata_of AddressAcknowledged = 0"
| "rxdata_of StopConditionObserved = 0"

fun deliver :: "sm_ptr \<Rightarrow> sub_event \<Rightarrow> system \<Rightarrow> fault + system" where
  "deliver Ptr_i2c0_state e s = I2C0_IRQHandler (flag_of e) (rxdata_of e) s"
| "deliver Ptr_i2c1_state e s = I2C1_IRQHandler (flag_of e) (rxdata_of e) s"

fun run :: "sm_ptr \<Rightarrow> sub_event list \<Rightarrow> system \<Rightarrow> fault + system" where
  "run i2c_sm [] s = Inr s"
| "run i2c_sm (e # es) s =
     (case deliver i2c_sm e s of Inl f \<Rightarrow> Inl f | Inr s' \<Rightarrow> run i2c_sm es s')"

text \<open>The controller a state machine belongs to.\<close>

fun controller_of :: "sm_ptr \<Rightarrow> I2C_TypeDef" where
  "controller_of Ptr_i2c0_state = I2C0"
| "controller_of Ptr_i2c1_state = I2C1"

text \<open>
  Bytes packed most-significant-byte-first into a word: the first byte of the list is
  the highest.
\<close>

fun pack_msb_first :: "8 word list \<Rightarrow> 32 word" where
  "pack_msb_first [] = 0"
| "pack_msb_first (b # bs) = push_bit (8 * length bs) (ucast b) OR pack_msb_first bs"

text \<open>
  The bytes a write of \<open>k\<close> bytes takes from the buffer word: byte \<open>k - 1\<close>
  first, byte 0 last.
\<close>

fun tx_bytes :: "nat \<Rightarrow> 32 word \<Rightarrow> 32 word list" where
  "tx_bytes 0 w = []"
| "tx_bytes (Suc k) w = (drop_bit (8 * k) w AND 0xff) # tx_bytes k w"

text \<open>
  The state in which the application first uses the driver: the statics as C
  zero-initialises them, both state machines marked available by \<open>i2c_open\<close>, no
  register written yet, both controllers idle.
\<close>

definition i2c_state_at_start :: I2C_STATE_MACHINE where
  "i2c_state_at_start =
     \<lparr>i2cx = I2C_other, device_address = 0, available = True, mode = write,
      num_of_data_bytes = 0, desired_register_address = 0, data = 0, I2C_CB = 0,
      current_state = initialize_device_write\<rparr>"

definition system_at_start :: system where
  "system_at_start =
     \<lparr>i2c0_state = i2c_state_at_start, i2c1_state = i2c_state_at_start,
      lowest_energy_modes = [0, 0, 0, 0, 0], event_scheduled = 0, memory = (\<lambda>a. 0),
      bus_idle = (\<lambda>i2c. True), reg_writes = []\<rparr>"

section \<open>Properties\<close>

lemmas EM_defs = EM0_def EM1_def EM2_def EM3_def EM4_def MAX_ENERGY_MODES_def

subsection \<open>The vote counters\<close>

lemma cbem_loop_spec:
  "let r = current_block_energy_mode_loop i modes in
     if (\<exists>k. i \<le> k \<and> k < MAX_ENERGY_MODES \<and> modes ! k \<noteq> 0)
     then i \<le> r \<and> r < MAX_ENERGY_MODES \<and> modes ! r \<noteq> 0 \<and> (\<forall>j. i \<le> j \<and> j < r \<longrightarrow> modes ! j = 0)
     else r = MAX_ENERGY_MODES - 1"
proof (induction i modes rule: current_block_energy_mode_loop.induct)
  case (1 i modes)
  show ?case
  proof (cases "i < MAX_ENERGY_MODES")
    case False
    then have eq: "current_block_energy_mode_loop i modes = MAX_ENERGY_MODES - 1"
      by (subst current_block_energy_mode_loop.simps) simp
    have nex: "\<not> (\<exists>k. i \<le> k \<and> k < MAX_ENERGY_MODES \<and> modes ! k \<noteq> 0)"
      using False by auto
    show ?thesis unfolding Let_def if_not_P[OF nex] by (fact eq)
  next
    case True
    show ?thesis
    proof (cases "modes ! i \<noteq> 0")
      case nz: True
      have eq: "current_block_energy_mode_loop i modes = i"
        using True nz by (subst current_block_energy_mode_loop.simps) simp
      have ex: "\<exists>k. i \<le> k \<and> k < MAX_ENERGY_MODES \<and> modes ! k \<noteq> 0"
        using True nz by blast
      show ?thesis unfolding Let_def if_P[OF ex] eq using True nz by simp
    next
      case False
      then have z: "modes ! i = 0" by simp
      have ge: "\<And>k. modes ! k \<noteq> 0 \<Longrightarrow> (i \<le> k) = (i + 1 \<le> k)"
        using z by (case_tac "k = i") auto
      have ex: "(\<exists>k. i \<le> k \<and> k < MAX_ENERGY_MODES \<and> modes ! k \<noteq> 0) =
                (\<exists>k. i + 1 \<le> k \<and> k < MAX_ENERGY_MODES \<and> modes ! k \<noteq> 0)"
        using ge by blast
      have step: "current_block_energy_mode_loop i modes = current_block_energy_mode_loop (i + 1) modes"
        using True z by (subst current_block_energy_mode_loop.simps) simp
      have all: "\<And>r. (\<forall>j. i + 1 \<le> j \<and> j < r \<longrightarrow> modes ! j = 0) \<Longrightarrow> (\<forall>j. i \<le> j \<and> j < r \<longrightarrow> modes ! j = 0)"
      proof (intro allI impI)
        fix r j assume a: "\<forall>j. i + 1 \<le> j \<and> j < r \<longrightarrow> modes ! j = 0" and b: "i \<le> j \<and> j < r"
        show "modes ! j = 0"
        proof (cases "j = i")
          case True then show ?thesis using z by simp
        next
          case False with b have "i + 1 \<le> j \<and> j < r" by simp
          with a show ?thesis by blast
        qed
      qed
      define r where "r = current_block_energy_mode_loop (i + 1) modes"
      have ih: "if (\<exists>k. i + 1 \<le> k \<and> k < MAX_ENERGY_MODES \<and> modes ! k \<noteq> 0)
         then i + 1 \<le> r \<and> r < MAX_ENERGY_MODES \<and> modes ! r \<noteq> 0 \<and> (\<forall>j. i + 1 \<le> j \<and> j < r \<longrightarrow> modes ! j = 0)
         else r = MAX_ENERGY_MODES - 1"
        using "1.IH"[OF True] z unfolding r_def Let_def by simp
      show ?thesis
      proof (cases "\<exists>k. i + 1 \<le> k \<and> k < MAX_ENERGY_MODES \<and> modes ! k \<noteq> 0")
        case e: True
        with ih have "i + 1 \<le> r" "r < MAX_ENERGY_MODES" "modes ! r \<noteq> 0"
          "\<forall>j. i + 1 \<le> j \<and> j < r \<longrightarrow> modes ! j = 0" unfolding if_P[OF e] by blast+
        then have "i \<le> r \<and> r < MAX_ENERGY_MODES \<and> modes ! r \<noteq> 0 \<and> (\<forall>j. i \<le> j \<and> j < r \<longrightarrow> modes ! j = 0)"
          using all[of r] by simp
        then show ?thesis unfolding step ex Let_def r_def[symmetric] if_P[OF e] .
      next
        case ne: False
        with ih have "r = MAX_ENERGY_MODES - 1" by simp
        then show ?thesis unfolding step ex Let_def r_def[symmetric] if_not_P[OF ne] .
      qed
    qed
  qed
qed

lemma sleep_open_loop_length: "length (sleep_open_loop i modes) = length modes"
proof (induction i modes rule: sleep_open_loop.induct)
  case (1 i modes)
  show ?case
  proof (cases "i < MAX_ENERGY_MODES - 1")
    case True
    then have "sleep_open_loop i modes = sleep_open_loop (i + 1) (modes[i := 0])"
      by (subst sleep_open_loop.simps) simp
    with "1.IH"[OF True] show ?thesis by simp
  next
    case False
    then have "sleep_open_loop i modes = modes"
      by (subst sleep_open_loop.simps) simp
    then show ?thesis by simp
  qed
qed

lemma sleep_open_loop_nth:
  "j < length modes \<Longrightarrow>
   sleep_open_loop i modes ! j = (if i \<le> j \<and> j < MAX_ENERGY_MODES - 1 then 0 else modes ! j)"
proof (induction i modes rule: sleep_open_loop.induct)
  case (1 i modes)
  show ?case
  proof (cases "i < MAX_ENERGY_MODES - 1")
    case False
    then have "sleep_open_loop i modes = modes"
      by (subst sleep_open_loop.simps) simp
    with False show ?thesis by simp
  next
    case True
    have "sleep_open_loop i modes ! j = sleep_open_loop (i + 1) (modes[i := 0]) ! j"
      using True by (subst sleep_open_loop.simps) simp
    also have "\<dots> = (if i + 1 \<le> j \<and> j < MAX_ENERGY_MODES - 1 then 0 else modes[i := 0] ! j)"
      using "1.IH"[OF True] "1.prems" by simp
    also have "\<dots> = (if i \<le> j \<and> j < MAX_ENERGY_MODES - 1 then 0 else modes ! j)"
    proof (cases "i = j")
      case True
      with \<open>i < MAX_ENERGY_MODES - 1\<close> "1.prems" show ?thesis by simp
    next
      case False
      then show ?thesis by auto
    qed
    finally show ?thesis .
  qed
qed

lemma current_block_energy_mode_loop_0:
  "current_block_energy_mode_loop 0 modes =
     (if modes ! 0 \<noteq> 0 then 0 else if modes ! 1 \<noteq> 0 then 1 else if modes ! 2 \<noteq> 0 then 2
      else if modes ! 3 \<noteq> 0 then 3 else 4)"
  by (simp add: current_block_energy_mode_loop.simps[of 0]
       current_block_energy_mode_loop.simps[of "Suc 0"]
       current_block_energy_mode_loop.simps[of "Suc (Suc 0)"]
       current_block_energy_mode_loop.simps[of "Suc (Suc (Suc 0))"]
       current_block_energy_mode_loop.simps[of "Suc (Suc (Suc (Suc 0)))"]
       current_block_energy_mode_loop.simps[of "Suc (Suc (Suc (Suc (Suc 0))))"]
       EM_defs numeral_2_eq_2 numeral_3_eq_3)

lemma sleep_open_loop_0:
  "sleep_open_loop 0 modes = modes[0 := 0, 1 := 0, 2 := 0, 3 := 0]"
  by (simp add: sleep_open_loop.simps[of 0]
       sleep_open_loop.simps[of "Suc 0"]
       sleep_open_loop.simps[of "Suc (Suc 0)"]
       sleep_open_loop.simps[of "Suc (Suc (Suc 0))"]
       sleep_open_loop.simps[of "Suc (Suc (Suc (Suc 0)))"]
       EM_defs numeral_2_eq_2 numeral_3_eq_3)


text \<open>
  Claim C3. On an array of \<open>MAX_ENERGY_MODES\<close> counters,
  \<open>current_block_energy_mode\<close> leaves the array as it found it and returns the
  shallowest level whose counter is not zero: that level is within the array, its counter
  is not zero and every shallower counter is zero. When all counters are zero it returns
  \<open>MAX_ENERGY_MODES - 1\<close>, the deepest level.
\<close>

theorem current_block_energy_mode_shallowest:
  assumes "energy_modes_ok modes"
  shows "snd (current_block_energy_mode modes) = modes \<and>
         (let r = fst (current_block_energy_mode modes) in
          if (\<exists>k. k < MAX_ENERGY_MODES \<and> modes ! k \<noteq> 0)
          then r < MAX_ENERGY_MODES \<and> modes ! r \<noteq> 0 \<and> (\<forall>j. j < r \<longrightarrow> modes ! j = 0)
          else r = MAX_ENERGY_MODES - 1)"
proof -
  have "snd (current_block_energy_mode modes) = modes"
    by (simp add: current_block_energy_mode_def)
  moreover have "fst (current_block_energy_mode modes) = current_block_energy_mode_loop 0 modes"
    by (simp add: current_block_energy_mode_def)
  moreover note cbem_loop_spec[of 0 modes]
  ultimately show ?thesis by (simp only: Let_def le0 simp_thms)
qed

theorem current_block_energy_mode_shallowest_witness:
  "energy_modes_ok [0, 0, 3, 1, 0] \<and>
   current_block_energy_mode [0, 0, 3, 1, 0] = (2, [0, 0, 3, 1, 0])"
proof -
  have ok: "energy_modes_ok [0, 0, 3, 1, 0]" by (simp add: energy_modes_ok_def EM_defs)
  have ex: "\<exists>k. k < MAX_ENERGY_MODES \<and> [0, 0, 3, 1, 0::int] ! k \<noteq> 0"
    by (rule exI[of _ 2]) (simp add: EM_defs)
  have "current_block_energy_mode_loop 0 [0, 0, 3, 1, 0] = 2"
    by (simp add: current_block_energy_mode_loop_0)
  then show ?thesis
    using current_block_energy_mode_shallowest[OF ok] ex ok
    by (simp add: current_block_energy_mode_def Let_def)
qed


text \<open>
  Claim C10. \<open>sleep_open\<close> sets the counters of the levels 0 to
  \<open>MAX_ENERGY_MODES - 2\<close> to zero and leaves the counter of the deepest level,
  at index \<open>MAX_ENERGY_MODES - 1\<close>, at whatever value it had.
\<close>

theorem sleep_open_leaves_deepest:
  assumes "energy_modes_ok modes"
  shows "energy_modes_ok (sleep_open modes) \<and>
         (\<forall>i. i < MAX_ENERGY_MODES - 1 \<longrightarrow> sleep_open modes ! i = 0) \<and>
         sleep_open modes ! (MAX_ENERGY_MODES - 1) = modes ! (MAX_ENERGY_MODES - 1)"
proof -
  from assms have len: "length modes = MAX_ENERGY_MODES" by (simp add: energy_modes_ok_def)
  have ok: "energy_modes_ok (sleep_open modes)"
    by (simp add: sleep_open_def energy_modes_ok_def sleep_open_loop_length len)
  have zero: "\<forall>i. i < MAX_ENERGY_MODES - 1 \<longrightarrow> sleep_open modes ! i = 0"
    by (simp add: sleep_open_def sleep_open_loop_nth len)
  have "MAX_ENERGY_MODES - 1 < length modes" by (simp add: len MAX_ENERGY_MODES_def)
  then have "sleep_open modes ! (MAX_ENERGY_MODES - 1) = modes ! (MAX_ENERGY_MODES - 1)"
    by (simp add: sleep_open_def sleep_open_loop_nth)
  with ok zero show ?thesis by blast
qed

theorem sleep_open_leaves_deepest_witness:
  "energy_modes_ok [1, 2, 3, 4, 7] \<and> sleep_open [1, 2, 3, 4, 7] = [0, 0, 0, 0, 7]"
proof -
  have ok: "energy_modes_ok [1, 2, 3, 4, 7]" by (simp add: energy_modes_ok_def EM_defs)
  have "sleep_open [1, 2, 3, 4, 7] = [0, 0, 0, 0, 7]"
    by (simp add: sleep_open_def sleep_open_loop_0)
  with ok sleep_open_leaves_deepest[OF ok] show ?thesis by simp
qed



lemma votes_nonneg_iff:
  "energy_modes_ok modes \<Longrightarrow>
   votes_nonneg modes = (\<forall>i. i < MAX_ENERGY_MODES \<longrightarrow> 0 \<le> modes ! i)"
  by (simp add: votes_nonneg_def energy_modes_ok_def list_all_length)

lemma votes_nonneg_nth:
  "energy_modes_ok modes \<Longrightarrow> votes_nonneg modes \<Longrightarrow> 0 \<le> modes ! 0 \<and> 0 \<le> modes ! 1 \<and> 0 \<le> modes ! 2 \<and> 0 \<le> modes ! 3 \<and> 0 \<le> modes ! 4"
  by (simp add: votes_nonneg_iff EM_defs)

text \<open>
  Claim C9. With the counters of the data model (none negative), \<open>enter_sleep\<close>
  makes no transition when the counter of \<open>EM0\<close> or \<open>EM1\<close> is not zero,
  enters EM1 when \<open>EM2\<close> is the shallowest level with a counter that is not zero,
  enters EM2 when that level is \<open>EM3\<close>, and enters EM3 when the counters of
  \<open>EM0\<close> to \<open>EM3\<close> are all zero. The counter of the deepest level has no
  influence on the choice, and a mode that is entered is strictly shallower than the
  level \<open>current_block_energy_mode\<close> returns.
\<close>

theorem enter_sleep_shallower_than_block:
  assumes ok: "energy_modes_ok modes" and nonneg: "votes_nonneg modes"
  shows "(modes ! EM0 \<noteq> 0 \<or> modes ! EM1 \<noteq> 0 \<longrightarrow> enter_sleep modes = None) \<and>
         (modes ! EM0 = 0 \<and> modes ! EM1 = 0 \<and> modes ! EM2 \<noteq> 0 \<longrightarrow>
            enter_sleep modes = Some EMU_EnterEM1) \<and>
         (modes ! EM0 = 0 \<and> modes ! EM1 = 0 \<and> modes ! EM2 = 0 \<and> modes ! EM3 \<noteq> 0 \<longrightarrow>
            enter_sleep modes = Some EMU_EnterEM2) \<and>
         (modes ! EM0 = 0 \<and> modes ! EM1 = 0 \<and> modes ! EM2 = 0 \<and> modes ! EM3 = 0 \<longrightarrow>
            enter_sleep modes = Some EMU_EnterEM3) \<and>
         (\<forall>v. enter_sleep (modes[EM4 := v]) = enter_sleep modes) \<and>
         (\<forall>c. enter_sleep modes = Some c \<longrightarrow>
            entered_mode c < fst (current_block_energy_mode modes))"
proof -
  note nn = votes_nonneg_nth[OF ok nonneg]
  have a: "modes ! EM0 \<noteq> 0 \<or> modes ! EM1 \<noteq> 0 \<longrightarrow> enter_sleep modes = None"
    using nn by (auto simp: enter_sleep_def EM_defs)
  have b: "modes ! EM0 = 0 \<and> modes ! EM1 = 0 \<and> modes ! EM2 \<noteq> 0 \<longrightarrow>
            enter_sleep modes = Some EMU_EnterEM1"
    using nn by (auto simp: enter_sleep_def EM_defs)
  have c: "modes ! EM0 = 0 \<and> modes ! EM1 = 0 \<and> modes ! EM2 = 0 \<and> modes ! EM3 \<noteq> 0 \<longrightarrow>
            enter_sleep modes = Some EMU_EnterEM2"
    using nn by (auto simp: enter_sleep_def EM_defs)
  have d: "modes ! EM0 = 0 \<and> modes ! EM1 = 0 \<and> modes ! EM2 = 0 \<and> modes ! EM3 = 0 \<longrightarrow>
            enter_sleep modes = Some EMU_EnterEM3"
    by (simp add: enter_sleep_def EM_defs)
  have e: "\<forall>v. enter_sleep (modes[EM4 := v]) = enter_sleep modes"
    by (simp add: enter_sleep_def EM_defs)
  have f: "\<forall>c. enter_sleep modes = Some c \<longrightarrow>
            entered_mode c < fst (current_block_energy_mode modes)"
    using nn
    by (auto simp: enter_sleep_def current_block_energy_mode_def current_block_energy_mode_loop_0
                   EM_defs split: if_splits)
  from a b c d e f show ?thesis by blast
qed

theorem enter_sleep_shallower_than_block_witness:
  "energy_modes_ok [0, 0, 1, 1, 0] \<and> votes_nonneg [0, 0, 1, 1, 0] \<and>
   enter_sleep [0, 0, 1, 1, 0] = Some EMU_EnterEM1 \<and>
   entered_mode EMU_EnterEM1 < fst (current_block_energy_mode [0, 0, 1, 1, 0])"
proof -
  have ok: "energy_modes_ok [0, 0, 1, 1, 0]" by (simp add: energy_modes_ok_def EM_defs)
  have nn: "votes_nonneg [0, 0, 1, 1, 0]"
    by (simp add: votes_nonneg_def)
  have es: "enter_sleep [0, 0, 1, 1, 0] = Some EMU_EnterEM1"
    using enter_sleep_shallower_than_block[OF ok nn] by (simp add: EM_defs)
  with enter_sleep_shallower_than_block[OF ok nn] ok nn show ?thesis by blast
qed

subsection \<open>Sequences of calls\<close>

lemma sleep_block_mode_Inr:
  "sleep_block_mode EM modes = Inr modes' \<Longrightarrow>
     EM < length modes \<and> modes' = modes[EM := modes ! EM + 1] \<and> modes ! EM + 1 < 5"
  by (auto simp: sleep_block_mode_def Let_def split: if_splits)

lemma sleep_unblock_mode_Inr:
  "sleep_unblock_mode EM modes = Inr modes' \<Longrightarrow>
     EM < length modes \<and> modes' = modes[EM := modes ! EM - 1] \<and> 0 \<le> modes ! EM - 1"
  by (auto simp: sleep_unblock_mode_def Let_def split: if_splits)

lemma do_sleep_call_preserves:
  assumes "do_sleep_call c modes = Inr modes'" "energy_modes_ok modes" "votes_nonneg modes"
  shows "energy_modes_ok modes' \<and> votes_nonneg modes'"
proof (cases c)
  case (Block EM)
  with assms(1) have b: "EM < length modes" "modes' = modes[EM := modes ! EM + 1]"
    by (auto dest: sleep_block_mode_Inr)
  from b assms(2) have ok': "energy_modes_ok modes'" by (simp add: energy_modes_ok_def)
  have "\<forall>i. i < MAX_ENERGY_MODES \<longrightarrow> 0 \<le> modes' ! i"
    using b assms(2,3)
    by (auto simp: votes_nonneg_iff[OF assms(2)] energy_modes_ok_def nth_list_update)
  then have "votes_nonneg modes'" by (simp add: votes_nonneg_iff[OF ok'])
  with ok' show ?thesis by simp
next
  case (Unblock EM)
  with assms(1) have b: "EM < length modes" "modes' = modes[EM := modes ! EM - 1]" "0 \<le> modes ! EM - 1"
    by (auto dest: sleep_unblock_mode_Inr)
  from b assms(2) have ok': "energy_modes_ok modes'" by (simp add: energy_modes_ok_def)
  have "\<forall>i. i < MAX_ENERGY_MODES \<longrightarrow> 0 \<le> modes' ! i"
    using b assms(2,3)
    by (auto simp: votes_nonneg_iff[OF assms(2)] energy_modes_ok_def nth_list_update)
  then have "votes_nonneg modes'" by (simp add: votes_nonneg_iff[OF ok'])
  with ok' show ?thesis by simp
qed

lemma run_sleep_calls_preserves:
  "run_sleep_calls cs modes = Inr modes' \<Longrightarrow> energy_modes_ok modes \<Longrightarrow> votes_nonneg modes \<Longrightarrow>
   energy_modes_ok modes' \<and> votes_nonneg modes'"
proof (induction cs arbitrary: modes)
  case Nil
  then show ?case by simp
next
  case (Cons c cs)
  from Cons.prems(1) obtain m1 where s: "do_sleep_call c modes = Inr m1"
    and r: "run_sleep_calls cs m1 = Inr modes'"
    by (auto split: sum.splits)
  from do_sleep_call_preserves[OF s Cons.prems(2,3)] Cons.IH[OF r] show ?case by blast
qed

lemma count_list_remove1:
  "count_list (remove1 x xs) y = (if x = y \<and> x \<in> set xs then count_list xs y - 1 else count_list xs y)"
  by (induction xs) auto


lemma over_unblock_fatal:
  "outstanding cs out = None \<Longrightarrow> energy_modes_ok modes \<Longrightarrow>
   (\<forall>l. l < MAX_ENERGY_MODES \<longrightarrow> modes ! l = int (count_list out l) \<and> modes ! l < 5) \<Longrightarrow>
   (\<forall>c \<in> set cs. call_level c < MAX_ENERGY_MODES) \<Longrightarrow>
   run_sleep_calls cs modes = Inl AssertFailed"
proof (induction cs arbitrary: out modes)
  case Nil
  then show ?case by simp
next
  case (Cons c cs)
  from Cons.prems(2) have len: "length modes = MAX_ENERGY_MODES" by (simp add: energy_modes_ok_def)
  show ?case
  proof (cases c)
    case (Block EM)
    with Cons.prems(4) have lt: "EM < MAX_ENERGY_MODES" by simp
    from Cons.prems(3) lt have v: "modes ! EM = int (count_list out EM)" "modes ! EM < 5"
      by auto
    show ?thesis
    proof (cases "modes ! EM + 1 < 5")
      case False
      with v lt len Block show ?thesis
        by (simp add: sleep_block_mode_def INT_MAX_def Let_def)
    next
      case True
      let ?m = "modes[EM := modes ! EM + 1]"
      have s: "sleep_block_mode EM modes = Inr ?m"
        using True v lt len by (simp add: sleep_block_mode_def INT_MAX_def Let_def)
      have ok: "energy_modes_ok ?m" using len by (simp add: energy_modes_ok_def)
      have tr: "(\<forall>l. l < MAX_ENERGY_MODES \<longrightarrow> ?m ! l = int (count_list (EM # out) l) \<and> ?m ! l < 5)"
        using Cons.prems(3) True len by (auto simp: nth_list_update)
      from Cons.prems(1) Block have o: "outstanding cs (EM # out) = None" by simp
      from Cons.IH[OF o ok tr] Cons.prems(4) s Block show ?thesis by simp
    qed
  next
    case (Unblock EM)
    with Cons.prems(4) have lt: "EM < MAX_ENERGY_MODES" by simp
    from Cons.prems(3) lt have v: "modes ! EM = int (count_list out EM)" "modes ! EM < 5"
      by auto
    show ?thesis
    proof (cases "EM \<in> set out")
      case False
      then have "modes ! EM = 0" using v by simp
      with lt len Unblock show ?thesis
        by (simp add: sleep_unblock_mode_def INT_MIN_def Let_def)
    next
      case True
      then have pos: "0 < count_list out EM" using count_list_0_iff[of out EM] by auto
      let ?m = "modes[EM := modes ! EM - 1]"
      have s: "sleep_unblock_mode EM modes = Inr ?m"
        using pos v lt len by (simp add: sleep_unblock_mode_def INT_MIN_def Let_def)
      have ok: "energy_modes_ok ?m" using len by (simp add: energy_modes_ok_def)
      have tr: "(\<forall>l. l < MAX_ENERGY_MODES \<longrightarrow> ?m ! l = int (count_list (remove1 EM out) l) \<and> ?m ! l < 5)"
        using Cons.prems(3) True pos len
        by (auto simp: nth_list_update count_list_remove1)
      from Cons.prems(1) Unblock True have o: "outstanding cs (remove1 EM out) = None" by simp
      from Cons.IH[OF o ok tr] Cons.prems(4) s Unblock show ?thesis by simp
    qed
  qed
qed

lemma run_sleep_calls_outstanding:
  "run_sleep_calls cs modes = Inr modes' \<Longrightarrow> outstanding cs out = Some out' \<Longrightarrow>
   energy_modes_ok modes \<Longrightarrow>
   energy_modes_ok modes' \<and>
   (\<forall>l. l < MAX_ENERGY_MODES \<longrightarrow>
      modes' ! l - int (count_list out' l) = modes ! l - int (count_list out l)) \<and>
   (\<forall>l \<in> set out'. l \<in> set out \<or> l < MAX_ENERGY_MODES)"
proof (induction cs arbitrary: modes out)
  case Nil
  then show ?case by simp
next
  case (Cons c cs)
  from Cons.prems(3) have len: "length modes = MAX_ENERGY_MODES" by (simp add: energy_modes_ok_def)
  from Cons.prems(1) obtain m1 where s: "do_sleep_call c modes = Inr m1"
    and r: "run_sleep_calls cs m1 = Inr modes'"
    by (auto split: sum.splits)
  show ?case
  proof (cases c)
    case (Block EM)
    with s have b: "EM < length modes" "m1 = modes[EM := modes ! EM + 1]"
      by (auto dest: sleep_block_mode_Inr)
    have ok1: "energy_modes_ok m1" using b len by (simp add: energy_modes_ok_def)
    from Cons.prems(2) Block have o: "outstanding cs (EM # out) = Some out'" by simp
    note ih = Cons.IH[OF r o ok1]
    have "\<forall>l. l < MAX_ENERGY_MODES \<longrightarrow>
            m1 ! l - int (count_list (EM # out) l) = modes ! l - int (count_list out l)"
      using b len by (auto simp: nth_list_update)
    moreover have "\<forall>l \<in> set (EM # out). l \<in> set out \<or> l < MAX_ENERGY_MODES"
      using b len by auto
    ultimately show ?thesis using ih by (metis)
  next
    case (Unblock EM)
    with s have b: "EM < length modes" "m1 = modes[EM := modes ! EM - 1]"
      by (auto dest: sleep_unblock_mode_Inr)
    have ok1: "energy_modes_ok m1" using b len by (simp add: energy_modes_ok_def)
    from Cons.prems(2) Unblock have mem: "EM \<in> set out"
      and o: "outstanding cs (remove1 EM out) = Some out'"
      by (auto split: if_splits)
    note ih = Cons.IH[OF r o ok1]
    from mem have pos: "0 < count_list out EM" using count_list_0_iff[of out EM] by auto
    have "\<forall>l. l < MAX_ENERGY_MODES \<longrightarrow>
            m1 ! l - int (count_list (remove1 EM out) l) = modes ! l - int (count_list out l)"
      using b len mem pos by (auto simp: nth_list_update count_list_remove1)
    moreover have "\<forall>l \<in> set (remove1 EM out). l \<in> set out"
      using set_remove1_subset[of EM out] by auto
    ultimately show ?thesis using ih by (metis)
  qed
qed

lemma cbem_le_nonzero:
  assumes "l < MAX_ENERGY_MODES" "modes ! l \<noteq> 0"
  shows "fst (current_block_energy_mode modes) \<le> l"
proof -
  let ?r = "current_block_energy_mode_loop 0 modes"
  have ex: "\<exists>k. 0 \<le> k \<and> k < MAX_ENERGY_MODES \<and> modes ! k \<noteq> 0" using assms by blast
  from cbem_loop_spec[of 0 modes] have "\<forall>j. 0 \<le> j \<and> j < ?r \<longrightarrow> modes ! j = 0"
    unfolding Let_def if_P[OF ex] by blast
  with assms(2) have "\<not> l < ?r" by auto
  then show ?thesis by (simp add: current_block_energy_mode_def)
qed

text \<open>
  Claim C4, as amended. Take counters of the data model (none negative) and a sequence of
  \<open>sleep_block_mode\<close> and \<open>sleep_unblock_mode\<close> calls that is pairwise balanced
  per level. If the sequence runs to its end, the counters after the last call are the
  counters before the first, and so is the level \<open>current_block_energy_mode\<close>
  returns. After every prefix of the sequence, that level is at most the level of every
  call then outstanding: the function returns the shallowest blocked level, so an
  outstanding call bounds it from above, not from below.
\<close>

theorem balanced_calls_restore_block_level:
  assumes ok: "energy_modes_ok modes" and nonneg: "votes_nonneg modes" and bal: "balanced cs"
  shows "(\<forall>modes'. run_sleep_calls cs modes = Inr modes' \<longrightarrow>
            modes' = modes \<and>
            fst (current_block_energy_mode modes') = fst (current_block_energy_mode modes)) \<and>
         (\<forall>p q modes1 out l.
            cs = p @ q \<and> run_sleep_calls p modes = Inr modes1 \<and>
            outstanding p [] = Some out \<and> l \<in> set out \<longrightarrow>
            fst (current_block_energy_mode modes1) \<le> l)"
proof (intro conjI allI impI)
  fix modes' assume r: "run_sleep_calls cs modes = Inr modes'"
  from bal have o: "outstanding cs [] = Some []" by (simp add: balanced_def)
  from run_sleep_calls_outstanding[OF r o ok]
  have ok': "energy_modes_ok modes'"
    and eq: "\<forall>l. l < MAX_ENERGY_MODES \<longrightarrow> modes' ! l = modes ! l" by auto
  show same: "modes' = modes"
  proof (rule nth_equalityI)
    show "length modes' = length modes" using ok ok' by (simp add: energy_modes_ok_def)
  next
    fix i assume "i < length modes'"
    with ok' eq show "modes' ! i = modes ! i" by (simp add: energy_modes_ok_def)
  qed
  show "fst (current_block_energy_mode modes') = fst (current_block_energy_mode modes)"
    by (simp add: same)
next
  fix p q modes1 out l
  assume a: "cs = p @ q \<and> run_sleep_calls p modes = Inr modes1 \<and>
             outstanding p [] = Some out \<and> l \<in> set out"
  then have r: "run_sleep_calls p modes = Inr modes1" and o: "outstanding p [] = Some out"
    and mem: "l \<in> set out" by auto
  from run_sleep_calls_outstanding[OF r o ok] mem
  have lt: "l < MAX_ENERGY_MODES"
    and eq: "modes1 ! l - int (count_list out l) = modes ! l - int (count_list [] l)" by auto
  from mem have pos: "0 < count_list out l" using count_list_0_iff[of out l] by auto
  from nonneg lt have "0 \<le> modes ! l" by (simp add: votes_nonneg_iff[OF ok])
  with eq pos have "modes1 ! l \<noteq> 0" by simp
  with lt show "fst (current_block_energy_mode modes1) \<le> l" by (rule cbem_le_nonzero)
qed


lemma zeros_ok: "energy_modes_ok [0, 0, 0, 0, 0]"
  by (simp add: energy_modes_ok_def EM_defs)

lemma votes_nonneg_5:
  "votes_nonneg [a, b, c, d, e] = (0 \<le> a \<and> 0 \<le> b \<and> 0 \<le> c \<and> 0 \<le> d \<and> 0 \<le> e)"
  by (simp add: votes_nonneg_def)

theorem balanced_calls_restore_block_level_witness:
  "energy_modes_ok [0, 0, 0, 1, 0] \<and> votes_nonneg [0, 0, 0, 1, 0] \<and>
   balanced [Block 2, Block 1, Unblock 2, Unblock 1] \<and>
   run_sleep_calls [Block 2, Block 1, Unblock 2, Unblock 1] [0, 0, 0, 1, 0] = Inr [0, 0, 0, 1, 0] \<and>
   run_sleep_calls [Block 2, Block 1] [0, 0, 0, 1, 0] = Inr [0, 1, 1, 1, 0] \<and>
   outstanding [Block 2, Block 1] [] = Some [1, 2] \<and>
   fst (current_block_energy_mode [0, 1, 1, 1, 0]) \<le> 1 \<and>
   fst (current_block_energy_mode [0, 1, 1, 1, 0]) \<le> 2"
proof -
  have ok: "energy_modes_ok [0, 0, 0, 1, 0]" by (simp add: energy_modes_ok_def EM_defs)
  have nn: "votes_nonneg [0, 0, 0, 1, 0]" by (simp add: votes_nonneg_5)
  have bal: "balanced [Block 2, Block 1, Unblock 2, Unblock 1]" by (simp add: balanced_def)
  have r: "run_sleep_calls [Block 2, Block 1, Unblock 2, Unblock 1] [0, 0, 0, 1, 0] = Inr [0, 0, 0, 1, 0]"
    by (simp add: sleep_block_mode_def sleep_unblock_mode_def INT_MAX_def INT_MIN_def Let_def)
  have p: "run_sleep_calls [Block 2, Block 1] [0, 0, 0, 1, 0] = Inr [0, 1, 1, 1, 0]"
    by (simp add: sleep_block_mode_def sleep_unblock_mode_def INT_MAX_def INT_MIN_def Let_def)
  have out: "outstanding [Block 2, Block 1] [] = Some [1, 2]" by simp
  have split: "[Block 2, Block 1, Unblock 2, Unblock 1] = [Block 2, Block 1] @ [Unblock 2, Unblock 1]"
    by simp
  note main = balanced_calls_restore_block_level[OF ok nn bal]
  from main split p out have "fst (current_block_energy_mode [0, 1, 1, 1, 0]) \<le> 1"
    by (metis list.set_intros(1))
  moreover from main split p out have "fst (current_block_energy_mode [0, 1, 1, 1, 0]) \<le> 2"
    by (metis list.set_intros(1,2))
  ultimately show ?thesis using ok nn bal r p out by blast
qed

text \<open>
  The claim as stated asks for a level at least that of every outstanding call. With
  \<open>EM2\<close> and \<open>EM3\<close> both blocked the function returns 2, below the
  outstanding level 3.
\<close>

theorem block_level_not_above_outstanding_counterexample:
  "energy_modes_ok [0, 0, 0, 0, 0] \<and> votes_nonneg [0, 0, 0, 0, 0] \<and>
   balanced [Block 2, Block 3, Unblock 3, Unblock 2] \<and>
   run_sleep_calls [Block 2, Block 3] [0, 0, 0, 0, 0] = Inr [0, 0, 1, 1, 0] \<and>
   outstanding [Block 2, Block 3] [] = Some [3, 2] \<and>
   \<not> fst (current_block_energy_mode [0, 0, 1, 1, 0]) \<ge> 3"
  by (simp add: zeros_ok votes_nonneg_5 balanced_def sleep_block_mode_def INT_MAX_def Let_def
        current_block_energy_mode_def current_block_energy_mode_loop_0)

text \<open>
  Claim C8. On an array of \<open>MAX_ENERGY_MODES\<close> counters,
  \<open>sleep_unblock_mode\<close> at a level whose counter is zero fails its assertion.
  Whatever the sequence of calls, a run that starts from counters none of which is
  negative and fails no assertion ends with counters none of which is negative. A
  sequence on levels of the array that, from counters all zero, holds an unblock call with
  no block call to answer stops at a failed assertion.
\<close>

theorem unblock_at_zero_fatal:
  assumes ok: "energy_modes_ok modes"
  shows "(\<forall>EM. EM < MAX_ENERGY_MODES \<and> modes ! EM = 0 \<longrightarrow>
            sleep_unblock_mode EM modes = Inl AssertFailed) \<and>
         (\<forall>cs modes'. votes_nonneg modes \<and> run_sleep_calls cs modes = Inr modes' \<longrightarrow>
            votes_nonneg modes') \<and>
         (\<forall>cs. (\<forall>l. l < MAX_ENERGY_MODES \<longrightarrow> modes ! l = 0) \<and>
               (\<forall>c \<in> set cs. call_level c < MAX_ENERGY_MODES) \<and> outstanding cs [] = None \<longrightarrow>
            run_sleep_calls cs modes = Inl AssertFailed)"
proof (intro conjI allI impI)
  fix EM assume "EM < MAX_ENERGY_MODES \<and> modes ! EM = 0"
  with ok show "sleep_unblock_mode EM modes = Inl AssertFailed"
    by (simp add: sleep_unblock_mode_def energy_modes_ok_def INT_MIN_def Let_def)
next
  fix cs modes' assume "votes_nonneg modes \<and> run_sleep_calls cs modes = Inr modes'"
  with run_sleep_calls_preserves[of cs modes modes'] ok show "votes_nonneg modes'" by blast
next
  fix cs
  assume a: "(\<forall>l. l < MAX_ENERGY_MODES \<longrightarrow> modes ! l = 0) \<and>
             (\<forall>c \<in> set cs. call_level c < MAX_ENERGY_MODES) \<and> outstanding cs [] = None"
  then have tr: "(\<forall>l. l < MAX_ENERGY_MODES \<longrightarrow> modes ! l = int (count_list [] l) \<and> modes ! l < 5)"
    by simp
  from a over_unblock_fatal[OF _ ok tr] show "run_sleep_calls cs modes = Inl AssertFailed" by blast
qed

theorem unblock_at_zero_fatal_witness:
  "energy_modes_ok [0, 0, 0, 0, 0] \<and> votes_nonneg [0, 0, 0, 0, 0] \<and>
   sleep_unblock_mode 2 [0, 0, 0, 0, 0] = Inl AssertFailed \<and>
   run_sleep_calls [Block 2, Unblock 2] [0, 0, 0, 0, 0] = Inr [0, 0, 0, 0, 0] \<and>
   outstanding [Block 2, Unblock 2, Unblock 2] [] = None \<and>
   run_sleep_calls [Block 2, Unblock 2, Unblock 2] [0, 0, 0, 0, 0] = Inl AssertFailed"
proof -
  note main = unblock_at_zero_fatal[OF zeros_ok]
  have nn: "votes_nonneg [0, 0, 0, 0, 0]" by (simp add: votes_nonneg_5)
  have z: "\<forall>l. l < MAX_ENERGY_MODES \<longrightarrow> [0, 0, 0, 0, 0::int] ! l = 0"
    using nn by (auto simp: EM_defs less_Suc_eq numeral_eq_Suc)
  have lv: "\<forall>c \<in> set [Block 2, Unblock 2, Unblock 2]. call_level c < MAX_ENERGY_MODES"
    by (simp add: EM_defs)
  have o: "outstanding [Block 2, Unblock 2, Unblock 2] [] = None" by simp
  have u: "sleep_unblock_mode 2 [0, 0, 0, 0, 0] = Inl AssertFailed"
    using main by (simp add: EM_defs)
  have r: "run_sleep_calls [Block 2, Unblock 2] [0, 0, 0, 0, 0] = Inr [0, 0, 0, 0, 0]"
    by (simp add: sleep_block_mode_def sleep_unblock_mode_def INT_MAX_def INT_MIN_def Let_def)
  have f: "run_sleep_calls [Block 2, Unblock 2, Unblock 2] [0, 0, 0, 0, 0] = Inl AssertFailed"
    using main z lv o by blast
  from zeros_ok nn u r o f show ?thesis by blast
qed

subsection \<open>The pending-event mask\<close>

lemma drain_eq: "drain events pending = pending AND NOT (foldr (OR) events 0)"
proof (induction events arbitrary: pending)
  case Nil
  show ?case by simp
next
  case (Cons e es)
  have "drain (e # es) pending = (pending AND NOT e) AND NOT (foldr (OR) es 0)"
    by (simp add: Cons.IH remove_scheduled_event_def)
  also have "\<dots> = pending AND NOT (foldr (OR) (e # es) 0)"
    by (simp add: bit_eq_iff bit_simps)
  finally show ?case .
qed

text \<open>
  Claim C6. For every event and every pending mask, posting the event a second time
  leaves the mask that posting it once left. When the consumer's drain clears events that
  together cover every pending bit, the snapshot read by \<open>get_scheduled_events\<close>
  afterwards is zero.
\<close>

theorem post_idempotent_drain_zero:
  "add_scheduled_event event (add_scheduled_event event pending) = add_scheduled_event event pending \<and>
   (get_scheduled_events pending AND NOT (foldr (OR) events 0) = 0 \<longrightarrow>
      get_scheduled_events (drain events pending) = 0)"
proof -
  have "(pending OR event) OR event = pending OR event"
    by (simp add: bit_eq_iff bit_simps) 
  then show ?thesis
    by (simp add: add_scheduled_event_def get_scheduled_events_def drain_eq)
qed

theorem post_idempotent_drain_zero_witness:
  "add_scheduled_event 8 (add_scheduled_event 8 1) = add_scheduled_event 8 1 \<and>
   get_scheduled_events (add_scheduled_event 8 1) AND NOT (foldr (OR) [1, 8] 0) = 0 \<and>
   get_scheduled_events (drain [1, 8] (add_scheduled_event 8 1)) = 0"
proof -
  have cover: "get_scheduled_events (add_scheduled_event 8 1) AND NOT (foldr (OR) [1, 8] 0) = 0"
    by (simp add: get_scheduled_events_def add_scheduled_event_def)
  with post_idempotent_drain_zero[of 8 1] post_idempotent_drain_zero[of 8 "add_scheduled_event 8 1" "[1, 8]"]
  show ?thesis by blast
qed

subsection \<open>The bus transaction state machine\<close>

lemma bind_result_simps [simp]:
  "bind_result (Inl e) f = Inl e"
  "bind_result (Inr x) f = f x"
  by (simp_all add: bind_result_def)

lemma deliver_AddressAcknowledged [simp]:
  "deliver i2c_sm AddressAcknowledged s = Ack_Func i2c_sm s"
  by (cases i2c_sm) (simp_all add: I2C0_IRQHandler_def I2C1_IRQHandler_def bind_result_def split: sum.splits)

lemma deliver_ByteAvailable [simp]:
  "deliver i2c_sm (ByteAvailable b) s = Rxdatav_Func b i2c_sm s"
  by (cases i2c_sm) (simp_all add: I2C0_IRQHandler_def I2C1_IRQHandler_def bind_result_def split: sum.splits)

lemma deliver_StopConditionObserved [simp]:
  "deliver i2c_sm StopConditionObserved s = Stop_Func i2c_sm s"
  by (cases i2c_sm) (simp_all add: I2C0_IRQHandler_def I2C1_IRQHandler_def bind_result_def split: sum.splits)

lemma wait_available_eq:
  "wait_available i2c_sm s = (if available (deref i2c_sm s) then Some () else None)"
proof (cases "available (deref i2c_sm s)")
  case True
  then show ?thesis by (subst wait_available.simps) simp
next
  case False
  have "wait_available i2c_sm s = None"
  proof (rule ccontr)
    assume "wait_available i2c_sm s \<noteq> None"
    then obtain u where "wait_available i2c_sm s = Some u" by auto
    then have "available (deref i2c_sm s)"
      by (rule wait_available.raw_induct[rotated, where P = "\<lambda>p s y. available (deref p s)"])
         (auto split: if_splits)
    with False show False by simp
  qed
  with False show ?thesis by simp
qed

lemma run_append:
  "run i2c_sm (es @ es') s = bind_result (run i2c_sm es s) (run i2c_sm es')"
  by (induction es arbitrary: s) (auto split: sum.splits)

lemmas handler_defs = Ack_Func_def Rxdatav_Func_def Stop_Func_def hw_write_def Let_def

lemma Ack_Func_available:
  "Ack_Func p s = Inr s' \<Longrightarrow> available (deref q s') = available (deref q s)"
  by (cases p; cases q; cases "current_state (deref p s)"; cases "mode (deref p s)")
     (auto simp: handler_defs split: if_splits)

lemma Rxdatav_Func_available:
  "Rxdatav_Func b p s = Inr s' \<Longrightarrow> available (deref q s') = available (deref q s)"
  by (cases p; cases q; cases "current_state (deref p s)")
     (auto simp: handler_defs split: if_splits)

lemma Stop_Func_Inr:
  "Stop_Func p s = Inr s' \<Longrightarrow>
     current_state (deref p s) = recieve_data \<and> available (deref p s') \<and>
     (q \<noteq> p \<longrightarrow> deref q s' = deref q s)"
  by (cases p; cases q; cases "current_state (deref p s)")
     (auto simp: handler_defs bind_result_def split: if_splits sum.splits)

lemma deliver_other_instance:
  "deliver q e s = Inr s' \<Longrightarrow> q \<noteq> p \<Longrightarrow> deref p s' = deref p s"
  by (cases e; cases p; cases q; cases "current_state (deref q s)"; cases "mode (deref q s)")
     (auto simp: handler_defs bind_result_def split: if_splits sum.splits)

lemma deliver_available:
  assumes "deliver p e s = Inr s'" "\<not> available (deref p s)" "available (deref p s')"
  shows "e = StopConditionObserved \<and> current_state (deref p s) = recieve_data"
proof (cases e)
  case AddressAcknowledged
  with assms Ack_Func_available[of p s s' p] show ?thesis by simp
next
  case (ByteAvailable b)
  with assms Rxdatav_Func_available[of b p s s' p] show ?thesis by simp
next
  case StopConditionObserved
  with assms Stop_Func_Inr[of p s s' p] show ?thesis by simp
qed

lemma run_available:
  "run p es s = Inr s' \<Longrightarrow> \<not> available (deref p s) \<Longrightarrow> available (deref p s') \<Longrightarrow>
   StopConditionObserved \<in> set es"
proof (induction es arbitrary: s)
  case Nil
  then show ?case by simp
next
  case (Cons e es)
  from Cons.prems(1) obtain s1 where d: "deliver p e s = Inr s1" and r: "run p es s1 = Inr s'"
    by (auto split: sum.splits)
  show ?case
  proof (cases "available (deref p s1)")
    case True
    with deliver_available[OF d Cons.prems(2)] show ?thesis by simp
  next
    case False
    from Cons.IH[OF r False Cons.prems(3)] show ?thesis by simp
  qed
qed

lemma i2c_start_Inr:
  assumes "i2c_start (controller_of p) dev m d n reg cb s = Some (Inr s')"
  shows "available (deref p s) \<and> \<not> available (deref p s') \<and>
         current_state (deref p s') = initialize_device_write \<and>
         (q \<noteq> p \<longrightarrow> deref q s' = deref q s)"
  using assms
  by (cases p; cases q)
     (auto simp: i2c_start_def wait_available_eq hw_write_def bind_result_def Let_def
           split: if_splits sum.splits)

lemmas start_defs = i2c_start_def wait_available_eq system_at_start_def i2c_state_at_start_def
  sleep_block_mode_def sleep_unblock_mode_def I2C_EM_BLOCK_def EM_defs INT_MAX_def INT_MIN_def
  add_scheduled_event_def

text \<open>
  The handlers by state. A received byte fails the assertion in every state but
  \<open>initialize_device_read\<close>, a stop condition in every state but
  \<open>recieve_data\<close>. An acknowledge fails it in the state \<open>stop\<close> only: in
  \<open>initialize_device_read\<close> and in \<open>recieve_data\<close> \<open>Ack_Func\<close> returns
  and nothing has changed.
\<close>

lemma sub_events_by_state:
  "(current_state (deref p s) \<noteq> initialize_device_read \<longrightarrow>
      deliver p (ByteAvailable b) s = Inl AssertFailed) \<and>
   (current_state (deref p s) \<noteq> recieve_data \<longrightarrow>
      deliver p StopConditionObserved s = Inl AssertFailed) \<and>
   (current_state (deref p s) = stop \<longrightarrow>
      deliver p AddressAcknowledged s = Inl AssertFailed) \<and>
   (current_state (deref p s) = initialize_device_read \<or> current_state (deref p s) = recieve_data \<longrightarrow>
      deliver p AddressAcknowledged s = Inr s)"
  by (cases "current_state (deref p s)") (simp_all add: handler_defs)

text \<open>
  Claim C2: a sub-event delivered in a state that does not expect it is reported as a
  fatal error, never ignored. The comment on \<open>Ack_Func\<close> says the same of every
  state but the three it names, and \<open>Rxdatav_Func\<close> and \<open>Stop_Func\<close> do so.
  \<open>Ack_Func\<close> does not. A one-byte write that has sent its byte and issued the stop
  condition awaits the stop in \<open>recieve_data\<close>: an acknowledge delivered there
  returns with the state as it was. After the stop condition the state machine is idle
  (available, in \<open>initialize_device_write\<close>): an acknowledge delivered there runs
  as the acknowledge of an address, writes the register address to \<open>TXDATA\<close> and
  moves on to \<open>write_data\<close>.
\<close>

theorem acknowledge_not_expected_not_fatal:
  "(case i2c_start I2C1 0x55 write 0 1 0x0B 0 system_at_start of
      Some (Inr s) \<Rightarrow>
        (case run Ptr_i2c1_state [AddressAcknowledged, AddressAcknowledged] s of
           Inr s' \<Rightarrow>
             current_state (deref Ptr_i2c1_state s') = recieve_data \<and>
             deliver Ptr_i2c1_state AddressAcknowledged s' = Inr s' \<and>
             (case deliver Ptr_i2c1_state StopConditionObserved s' of
                Inr idle \<Rightarrow>
                  available (deref Ptr_i2c1_state idle) \<and>
                  current_state (deref Ptr_i2c1_state idle) = initialize_device_write \<and>
                  (case deliver Ptr_i2c1_state AddressAcknowledged idle of
                     Inr s'' \<Rightarrow>
                       current_state (deref Ptr_i2c1_state s'') = write_data \<and>
                       reg_writes s'' = reg_writes idle @ [(I2C1, TXDATA 0x0B)]
                   | Inl f \<Rightarrow> False)
              | Inl f \<Rightarrow> False)
         | Inl f \<Rightarrow> False)
    | _ \<Rightarrow> False)"
  by (simp add: start_defs handler_defs)

text \<open>
  Claim C5. For either state machine: while \<open>available\<close> is false,
  \<open>i2c_start\<close> stays in its wait loop and starts nothing; once it is true the call
  goes on, and a call that starts a transaction leaves \<open>available\<close> false, so that
  a second call waits. No sub-event but a stop condition handled in \<open>recieve_data\<close>
  makes \<open>available\<close> true again, so a run of sub-events that ends with the flag
  true holds a stop condition. Sub-events and calls for the other state machine leave
  this one as it is.
\<close>

theorem transactions_serialized:
  "(\<not> available (deref p s) \<longrightarrow>
      i2c_start (controller_of p) dev m d n reg cb s = None) \<and>
   (available (deref p s) \<longrightarrow>
      i2c_start (controller_of p) dev m d n reg cb s \<noteq> None) \<and>
   (\<forall>s'. i2c_start (controller_of p) dev m d n reg cb s = Some (Inr s') \<longrightarrow>
      \<not> available (deref p s') \<and> i2c_start (controller_of p) dev m d n reg cb s' = None) \<and>
   (\<forall>e s'. \<not> available (deref p s) \<and> deliver p e s = Inr s' \<and> available (deref p s') \<longrightarrow>
      e = StopConditionObserved \<and> current_state (deref p s) = recieve_data) \<and>
   (\<forall>es s'. \<not> available (deref p s) \<and> run p es s = Inr s' \<and> available (deref p s') \<longrightarrow>
      StopConditionObserved \<in> set es) \<and>
   (\<forall>q e s'. q \<noteq> p \<and> deliver q e s = Inr s' \<longrightarrow> deref p s' = deref p s) \<and>
   (\<forall>q dev' m' d' n' reg' cb' s'.
      q \<noteq> p \<and> i2c_start (controller_of q) dev' m' d' n' reg' cb' s = Some (Inr s') \<longrightarrow>
      deref p s' = deref p s)"
proof -
  have gate: "\<And>t. \<not> available (deref p t) \<Longrightarrow>
      i2c_start (controller_of p) dev m d n reg cb t = None"
    by (cases p) (simp_all add: i2c_start_def wait_available_eq)
  have a: "\<not> available (deref p s) \<longrightarrow> i2c_start (controller_of p) dev m d n reg cb s = None"
    using gate[of s] by simp
  have b: "available (deref p s) \<longrightarrow> i2c_start (controller_of p) dev m d n reg cb s \<noteq> None"
    by (cases p) (simp_all add: i2c_start_def wait_available_eq)
  have c: "\<forall>s'. i2c_start (controller_of p) dev m d n reg cb s = Some (Inr s') \<longrightarrow>
      \<not> available (deref p s') \<and> i2c_start (controller_of p) dev m d n reg cb s' = None"
  proof (intro allI impI)
    fix s' assume st: "i2c_start (controller_of p) dev m d n reg cb s = Some (Inr s')"
    from i2c_start_Inr[OF st, of p] have na: "\<not> available (deref p s')" by simp
    with gate[of s'] show "\<not> available (deref p s') \<and>
        i2c_start (controller_of p) dev m d n reg cb s' = None" by simp
  qed
  have d: "\<forall>e s'. \<not> available (deref p s) \<and> deliver p e s = Inr s' \<and> available (deref p s') \<longrightarrow>
      e = StopConditionObserved \<and> current_state (deref p s) = recieve_data"
    using deliver_available by blast
  have e: "\<forall>es s'. \<not> available (deref p s) \<and> run p es s = Inr s' \<and> available (deref p s') \<longrightarrow>
      StopConditionObserved \<in> set es"
    using run_available by blast
  have f: "\<forall>q e s'. q \<noteq> p \<and> deliver q e s = Inr s' \<longrightarrow> deref p s' = deref p s"
    using deliver_other_instance by blast
  have g: "\<forall>q dev' m' d' n' reg' cb' s'.
      q \<noteq> p \<and> i2c_start (controller_of q) dev' m' d' n' reg' cb' s = Some (Inr s') \<longrightarrow>
      deref p s' = deref p s"
  proof (intro allI impI)
    fix q dev' m' d' n' reg' cb' s'
    assume h: "q \<noteq> p \<and> i2c_start (controller_of q) dev' m' d' n' reg' cb' s = Some (Inr s')"
    then have st: "i2c_start (controller_of q) dev' m' d' n' reg' cb' s = Some (Inr s')" by simp
    from i2c_start_Inr[OF st, of p] h show "deref p s' = deref p s" by auto
  qed
  from a b c d e f g show ?thesis by blast
qed

theorem transactions_serialized_witness:
  "available (deref Ptr_i2c1_state system_at_start) \<and>
   (case i2c_start I2C1 0x55 read 0 2 0x13 8 system_at_start of
      Some (Inr s) \<Rightarrow>
        \<not> available (deref Ptr_i2c1_state s) \<and>
        i2c_start I2C1 0x55 read 0 2 0x13 8 s = None \<and>
        (case run Ptr_i2c1_state [AddressAcknowledged, AddressAcknowledged, ByteAvailable 0,
                ByteAvailable 10] s of
           Inr s' \<Rightarrow> \<not> available (deref Ptr_i2c1_state s') \<and>
                     (case deliver Ptr_i2c1_state StopConditionObserved s' of
                        Inr s'' \<Rightarrow> available (deref Ptr_i2c1_state s'') \<and>
                                   current_state (deref Ptr_i2c1_state s') = recieve_data
                      | Inl f \<Rightarrow> False)
         | Inl f \<Rightarrow> False)
    | _ \<Rightarrow> False)"
  using transactions_serialized[where p = Ptr_i2c1_state and s = system_at_start and dev = "0x55"
      and m = read and d = 0 and n = 2 and reg = "0x13" and cb = 8]
  by (simp add: start_defs handler_defs)

subsection \<open>Whole transactions\<close>

lemma small_count:
  assumes "k < 4"
  shows "unat (8 * (of_nat k :: 32 word)) = 8 * k"
    and "((of_nat k :: 32 word) = 0) = (k = 0)"
    and "(0 < (of_nat k :: 32 word)) = (0 < k)"
proof -
  from assms have "k = 0 \<or> k = 1 \<or> k = 2 \<or> k = 3" by arith
  then show "unat (8 * (of_nat k :: 32 word)) = 8 * k"
    and "((of_nat k :: 32 word) = 0) = (k = 0)"
    and "(0 < (of_nat k :: 32 word)) = (0 < k)"
    by auto
qed

lemma Ack_Func_write_data:
  assumes "current_state (deref p s) = write_data"
    and "num_of_data_bytes (deref p s) = of_nat (Suc k)" and "k < 4"
  shows "Ack_Func p s =
     Inr (if k = 0
          then assign p ((deref p s)\<lparr>num_of_data_bytes := 0, current_state := recieve_data\<rparr>)
                 (s\<lparr>reg_writes := reg_writes s @
                      [(i2cx (deref p s), TXDATA (drop_bit (8 * k) (memory s (data (deref p s))) AND 0xff)),
                       (i2cx (deref p s), CMD I2C_CMD_STOP)]\<rparr>)
          else assign p ((deref p s)\<lparr>num_of_data_bytes := of_nat k\<rparr>)
                 (s\<lparr>reg_writes := reg_writes s @
                      [(i2cx (deref p s), TXDATA (drop_bit (8 * k) (memory s (data (deref p s))) AND 0xff))]\<rparr>))"
  using assms small_count[of k]
  by (cases p) (simp_all add: handler_defs)

lemma write_loop:
  "current_state (deref p s) = write_data \<Longrightarrow>
   num_of_data_bytes (deref p s) = of_nat (Suc k) \<Longrightarrow> k < 4 \<Longrightarrow>
   run p (replicate (Suc k) AddressAcknowledged) s =
     Inr (assign p ((deref p s)\<lparr>num_of_data_bytes := 0, current_state := recieve_data\<rparr>)
            (s\<lparr>reg_writes := reg_writes s @
                 map (\<lambda>b. (i2cx (deref p s), TXDATA b))
                     (tx_bytes (Suc k) (memory s (data (deref p s)))) @
                 [(i2cx (deref p s), CMD I2C_CMD_STOP)]\<rparr>))"
proof (induction k arbitrary: s)
  case 0
  then show ?case
    using Ack_Func_write_data[of p s 0] by (cases p) simp_all
next
  case (Suc k)
  let ?s1 = "assign p ((deref p s)\<lparr>num_of_data_bytes := of_nat (Suc k)\<rparr>)
                 (s\<lparr>reg_writes := reg_writes s @
                      [(i2cx (deref p s), TXDATA (drop_bit (8 * Suc k) (memory s (data (deref p s))) AND 0xff))]\<rparr>)"
  have step: "Ack_Func p s = Inr ?s1"
    using Ack_Func_write_data[of p s "Suc k"] Suc.prems by simp
  have st1: "current_state (deref p ?s1) = write_data"
    and n1: "num_of_data_bytes (deref p ?s1) = of_nat (Suc k)"
    using Suc.prems by (cases p; simp)+
  from Suc.prems have k: "k < 4" by simp
  note ih = Suc.IH[OF st1 n1 k]
  have "run p (replicate (Suc (Suc k)) AddressAcknowledged) s =
        run p (replicate (Suc k) AddressAcknowledged) ?s1"
    using step by simp
  also note ih
  finally show ?case by (cases p) simp_all
qed

lemma byte_mask: "(0xff :: 32 word) = mask 8"
  by (simp add: mask_eq_exp_minus_1)

lemma store_byte_low:
  fixes m q :: "32 word" and b :: "8 word"
  shows "(((m AND NOT (push_bit n (mask 8))) OR push_bit n (ucast b)) AND NOT (mask n)) OR q =
         (m AND NOT (mask (8 + n))) OR (push_bit n (ucast b) OR q)"
  by (rule bit_word_eqI) (auto simp: bit_simps)

lemma store_byte_last:
  fixes m :: "32 word" and b :: "8 word"
  shows "(m AND NOT (push_bit 0 (mask 8))) OR push_bit 0 (ucast b) =
         (m AND NOT (mask 8)) OR (push_bit 0 (ucast b) OR 0)"
  by simp

lemma Rxdatav_Func_receive:
  assumes "current_state (deref p s) = initialize_device_read"
    and "num_of_data_bytes (deref p s) = of_nat (Suc k)" and "k < 4"
  shows "Rxdatav_Func b p s =
     Inr (if k = 0
          then assign p ((deref p s)\<lparr>num_of_data_bytes := 0, current_state := recieve_data\<rparr>)
                 (s\<lparr>memory := (memory s)(data (deref p s) :=
                        (memory s (data (deref p s)) AND NOT (push_bit (8 * k) (mask 8))) OR
                        push_bit (8 * k) (ucast b)),
                    reg_writes := reg_writes s @
                      [(i2cx (deref p s), CMD I2C_CMD_NACK), (i2cx (deref p s), CMD I2C_CMD_STOP)]\<rparr>)
          else assign p ((deref p s)\<lparr>num_of_data_bytes := of_nat k\<rparr>)
                 (s\<lparr>memory := (memory s)(data (deref p s) :=
                        (memory s (data (deref p s)) AND NOT (push_bit (8 * k) (mask 8))) OR
                        push_bit (8 * k) (ucast b)),
                    reg_writes := reg_writes s @ [(i2cx (deref p s), CMD I2C_CMD_ACK)]\<rparr>))"
  using assms small_count[of k]
  by (cases p) (simp_all add: handler_defs byte_mask)

lemma read_loop:
  "current_state (deref p s) = initialize_device_read \<Longrightarrow>
   num_of_data_bytes (deref p s) = of_nat (length bs) \<Longrightarrow> length bs = Suc k \<Longrightarrow> k < 4 \<Longrightarrow>
   run p (map ByteAvailable bs) s =
     Inr (assign p ((deref p s)\<lparr>num_of_data_bytes := 0, current_state := recieve_data\<rparr>)
            (s\<lparr>memory := (memory s)(data (deref p s) :=
                   (memory s (data (deref p s)) AND NOT (mask (8 * length bs))) OR
                   pack_msb_first bs),
               reg_writes := reg_writes s @ replicate k (i2cx (deref p s), CMD I2C_CMD_ACK) @
                 [(i2cx (deref p s), CMD I2C_CMD_NACK), (i2cx (deref p s), CMD I2C_CMD_STOP)]\<rparr>))"
proof (induction bs arbitrary: s k)
  case Nil
  then show ?case by simp
next
  case (Cons b bs)
  from Cons.prems(3) have lk: "length bs = k" by simp
  from Cons.prems(2) lk have n: "num_of_data_bytes (deref p s) = of_nat (Suc k)" by simp
  note step = Rxdatav_Func_receive[OF Cons.prems(1) n Cons.prems(4), of b]
  show ?case
  proof (cases k)
    case 0
    with lk have "bs = []" by simp
    with step 0 show ?thesis by (cases p) (simp_all add: mask_eq_exp_minus_1 fun_upd_def)
  next
    case (Suc j)
    let ?d = "(memory s (data (deref p s)) AND NOT (push_bit (8 * k) (mask 8))) OR
                        push_bit (8 * k) (ucast b)"
    let ?s1 = "assign p ((deref p s)\<lparr>num_of_data_bytes := of_nat k\<rparr>)
                 (s\<lparr>memory := (memory s)(data (deref p s) := ?d),
                    reg_writes := reg_writes s @ [(i2cx (deref p s), CMD I2C_CMD_ACK)]\<rparr>)"
    from step Suc have st: "Rxdatav_Func b p s = Inr ?s1" by simp
    have st1: "current_state (deref p ?s1) = initialize_device_read"
      and n1: "num_of_data_bytes (deref p ?s1) = of_nat (length bs)"
      using Cons.prems(1) lk by (cases p; simp)+
    from Suc lk have l1: "length bs = Suc j" by simp
    from Suc Cons.prems(4) have j: "j < 4" by simp
    note ih = Cons.IH[OF st1 n1 l1 j]
    have "run p (map ByteAvailable (b # bs)) s = run p (map ByteAvailable bs) ?s1"
      using st by simp
    also note ih
    finally show ?thesis
      using lk Suc
      by (cases p) (simp_all add: replicate_append_same store_byte_low cong: if_cong)
  qed
qed

lemma acks_ignored:
  "current_state (deref p s) = initialize_device_read \<Longrightarrow>
   run p (replicate j AddressAcknowledged) s = Inr s"
  by (induction j) (simp_all add: Ack_Func_def)

lemma Stop_Func_recieve_data:
  assumes "current_state (deref p s) = recieve_data"
    and "sleep_unblock_mode I2C_EM_BLOCK (lowest_energy_modes s) = Inr modes'"
  shows "Stop_Func p s =
     Inr (assign p ((deref p s)\<lparr>available := True, current_state := initialize_device_write\<rparr>)
            (s\<lparr>lowest_energy_modes := modes',
               event_scheduled := add_scheduled_event (I2C_CB (deref p s)) (event_scheduled s)\<rparr>))"
  using assms by (cases p) (simp_all add: Stop_Func_def Let_def)

lemma block_then_unblock:
  assumes "energy_modes_ok modes" "votes_nonneg modes" "modes ! I2C_EM_BLOCK < 4"
  shows "sleep_block_mode I2C_EM_BLOCK modes =
           Inr (modes[I2C_EM_BLOCK := modes ! I2C_EM_BLOCK + 1])"
    and "sleep_unblock_mode I2C_EM_BLOCK (modes[I2C_EM_BLOCK := modes ! I2C_EM_BLOCK + 1]) = Inr modes"
proof -
  from assms(1) have len: "I2C_EM_BLOCK < length modes"
    by (simp add: energy_modes_ok_def I2C_EM_BLOCK_def EM_defs)
  from assms(2) have nn: "0 \<le> modes ! I2C_EM_BLOCK"
    by (simp add: votes_nonneg_iff[OF assms(1)] I2C_EM_BLOCK_def EM_defs)
  show "sleep_block_mode I2C_EM_BLOCK modes =
           Inr (modes[I2C_EM_BLOCK := modes ! I2C_EM_BLOCK + 1])"
    using len nn assms(3) by (simp add: sleep_block_mode_def INT_MAX_def Let_def)
  show "sleep_unblock_mode I2C_EM_BLOCK (modes[I2C_EM_BLOCK := modes ! I2C_EM_BLOCK + 1]) = Inr modes"
    using len nn by (simp add: sleep_unblock_mode_def INT_MIN_def Let_def)
qed

lemma i2c_start_succeeds:
  assumes "available (deref p s)" "bus_idle s (controller_of p)"
    and "energy_modes_ok (lowest_energy_modes s)" "votes_nonneg (lowest_energy_modes s)"
    and "lowest_energy_modes s ! I2C_EM_BLOCK < 4"
  shows "i2c_start (controller_of p) dev m d n reg cb s =
     Some (Inr (assign p
        \<lparr>i2cx = controller_of p, device_address = dev, available = False, mode = m,
         num_of_data_bytes = n, desired_register_address = reg, data = d, I2C_CB = cb,
         current_state = initialize_device_write\<rparr>
        (s\<lparr>lowest_energy_modes :=
             (lowest_energy_modes s)[I2C_EM_BLOCK := lowest_energy_modes s ! I2C_EM_BLOCK + 1],
           reg_writes := reg_writes s @
             [(controller_of p, CMD I2C_CMD_START), (controller_of p, TXDATA (push_bit 1 dev))]\<rparr>)))"
  using assms(1,2) block_then_unblock(1)[OF assms(3,4,5)]
  by (cases p) (simp_all add: i2c_start_def wait_available_eq hw_write_def Let_def)

text \<open>
  Claim C1, as amended. The data buffer is one 32-bit word, so a read holds at most four
  bytes. For \<open>N\<close> from 1 to 4: on a state machine that is available, with its bus
  idle and counters that admit one more vote, \<open>i2c_start\<close> in read mode takes its
  vote; after the acknowledges of the address phase (two, and any number more, which are
  ignored), \<open>N\<close> received bytes leave the transaction unfinished and nothing posted;
  the stop condition then ends it with the low \<open>8 * N\<close> bits of the buffer holding
  the bytes, first byte highest, the bits above them and all other memory as before, no
  bytes remaining, \<open>available\<close> true again, the counters as before the start, and
  the completion event OR-ed into the pending mask.
\<close>

theorem read_transaction_completes:
  assumes av: "available (deref p s)" and idle: "bus_idle s (controller_of p)"
    and ok: "energy_modes_ok (lowest_energy_modes s)"
    and nn: "votes_nonneg (lowest_energy_modes s)"
    and room: "lowest_energy_modes s ! I2C_EM_BLOCK < 4"
    and len1: "1 \<le> length bs" and len4: "length bs \<le> 4"
  shows "\<exists>s0 s1 s2.
      i2c_start (controller_of p) dev read d (of_nat (length bs)) reg cb s = Some (Inr s0) \<and>
      lowest_energy_modes s0 ! I2C_EM_BLOCK = lowest_energy_modes s ! I2C_EM_BLOCK + 1 \<and>
      run p (AddressAcknowledged # AddressAcknowledged # replicate j AddressAcknowledged @
             map ByteAvailable bs) s0 = Inr s1 \<and>
      \<not> available (deref p s1) \<and> event_scheduled s1 = event_scheduled s \<and>
      deliver p StopConditionObserved s1 = Inr s2 \<and>
      memory s2 = (memory s)(d := (memory s d AND NOT (mask (8 * length bs))) OR pack_msb_first bs) \<and>
      num_of_data_bytes (deref p s2) = 0 \<and> available (deref p s2) \<and>
      current_state (deref p s2) = initialize_device_write \<and>
      lowest_energy_modes s2 = lowest_energy_modes s \<and>
      event_scheduled s2 = add_scheduled_event cb (event_scheduled s)"
proof -
  let ?c = "controller_of p"
  let ?modes = "lowest_energy_modes s"
  define s0 where "s0 = assign p
        \<lparr>i2cx = ?c, device_address = dev, available = False, mode = read,
         num_of_data_bytes = of_nat (length bs), desired_register_address = reg, data = d,
         I2C_CB = cb, current_state = initialize_device_write\<rparr>
        (s\<lparr>lowest_energy_modes := ?modes[I2C_EM_BLOCK := ?modes ! I2C_EM_BLOCK + 1],
           reg_writes := reg_writes s @ [(?c, CMD I2C_CMD_START), (?c, TXDATA (push_bit 1 dev))]\<rparr>)"
  have start: "i2c_start ?c dev read d (of_nat (length bs)) reg cb s = Some (Inr s0)"
    unfolding s0_def by (rule i2c_start_succeeds[OF av idle ok nn room])
  from ok have blk: "I2C_EM_BLOCK < length ?modes"
    by (simp add: energy_modes_ok_def I2C_EM_BLOCK_def EM_defs)
  have m0: "lowest_energy_modes s0 ! I2C_EM_BLOCK = ?modes ! I2C_EM_BLOCK + 1"
    using blk unfolding s0_def by (cases p) simp_all
  obtain srd where acks: "run p [AddressAcknowledged, AddressAcknowledged] s0 = Inr srd"
    and rd: "current_state (deref p srd) = initialize_device_read"
    and rd_n: "num_of_data_bytes (deref p srd) = of_nat (length bs)"
    and rd_d: "data (deref p srd) = d" and rd_cb: "I2C_CB (deref p srd) = cb"
    and rd_av: "\<not> available (deref p srd)" and rd_mem: "memory srd = memory s"
    and rd_modes: "lowest_energy_modes srd = ?modes[I2C_EM_BLOCK := ?modes ! I2C_EM_BLOCK + 1]"
    and rd_ev: "event_scheduled srd = event_scheduled s"
    unfolding s0_def by (cases p) (simp_all add: handler_defs)
  note extra = acks_ignored[OF rd, of j]
  from len1 len4 obtain k where k: "length bs = Suc k" "k < 4"
    by (cases "length bs") auto
  define s1 where "s1 = assign p ((deref p srd)\<lparr>num_of_data_bytes := 0, current_state := recieve_data\<rparr>)
            (srd\<lparr>memory := (memory srd)(data (deref p srd) :=
                   (memory srd (data (deref p srd)) AND NOT (mask (8 * length bs))) OR
                   pack_msb_first bs),
               reg_writes := reg_writes srd @ replicate k (i2cx (deref p srd), CMD I2C_CMD_ACK) @
                 [(i2cx (deref p srd), CMD I2C_CMD_NACK), (i2cx (deref p srd), CMD I2C_CMD_STOP)]\<rparr>)"
  have loop: "run p (map ByteAvailable bs) srd = Inr s1"
    unfolding s1_def by (rule read_loop[OF rd rd_n k])
  have whole: "run p (AddressAcknowledged # AddressAcknowledged # replicate j AddressAcknowledged @
             map ByteAvailable bs) s0 = Inr s1"
  proof -
    have "run p ([AddressAcknowledged, AddressAcknowledged] @ replicate j AddressAcknowledged @
             map ByteAvailable bs) s0 = Inr s1"
      by (simp only: run_append acks extra loop bind_result_simps)
    then show ?thesis by simp
  qed
  have s1_st: "current_state (deref p s1) = recieve_data"
    and s1_n: "num_of_data_bytes (deref p s1) = 0"
    and s1_cb: "I2C_CB (deref p s1) = cb"
    and s1_av: "\<not> available (deref p s1)"
    and s1_ev: "event_scheduled s1 = event_scheduled s"
    and s1_modes: "lowest_energy_modes s1 = ?modes[I2C_EM_BLOCK := ?modes ! I2C_EM_BLOCK + 1]"
    and s1_mem: "memory s1 = (memory s)(d := (memory s d AND NOT (mask (8 * length bs))) OR pack_msb_first bs)"
    using rd_cb rd_av rd_ev rd_modes rd_mem rd_d unfolding s1_def by (cases p; simp)+
  have unb: "sleep_unblock_mode I2C_EM_BLOCK (lowest_energy_modes s1) = Inr ?modes"
    unfolding s1_modes by (rule block_then_unblock(2)[OF ok nn room])
  note stop = Stop_Func_recieve_data[OF s1_st unb]
  define s2 where "s2 = assign p ((deref p s1)\<lparr>available := True, current_state := initialize_device_write\<rparr>)
            (s1\<lparr>lowest_energy_modes := ?modes,
               event_scheduled := add_scheduled_event (I2C_CB (deref p s1)) (event_scheduled s1)\<rparr>)"
  have stop': "deliver p StopConditionObserved s1 = Inr s2"
    using stop unfolding s2_def by simp
  have s2_facts: "memory s2 = (memory s)(d := (memory s d AND NOT (mask (8 * length bs))) OR pack_msb_first bs)"
    "num_of_data_bytes (deref p s2) = 0" "available (deref p s2)"
    "current_state (deref p s2) = initialize_device_write"
    "lowest_energy_modes s2 = ?modes"
    "event_scheduled s2 = add_scheduled_event cb (event_scheduled s)"
    using s1_n s1_cb s1_ev s1_mem unfolding s2_def by (cases p; simp)+
  from start m0 whole s1_av s1_ev stop' s2_facts show ?thesis by blast
qed

lemma system_at_start_ready:
  "available (deref Ptr_i2c1_state system_at_start)"
  "bus_idle system_at_start (controller_of Ptr_i2c1_state)"
  "energy_modes_ok (lowest_energy_modes system_at_start)"
  "votes_nonneg (lowest_energy_modes system_at_start)"
  "lowest_energy_modes system_at_start ! I2C_EM_BLOCK < 4"
  by (simp_all add: system_at_start_def i2c_state_at_start_def energy_modes_ok_def
        votes_nonneg_5 I2C_EM_BLOCK_def EM_defs)

theorem read_transaction_completes_witness:
  "available (deref Ptr_i2c1_state system_at_start) \<and>
   bus_idle system_at_start (controller_of Ptr_i2c1_state) \<and>
   energy_modes_ok (lowest_energy_modes system_at_start) \<and>
   votes_nonneg (lowest_energy_modes system_at_start) \<and>
   lowest_energy_modes system_at_start ! I2C_EM_BLOCK < 4 \<and>
   (case i2c_start I2C1 0x55 read 0 2 0x13 8 system_at_start of
      Some (Inr s0) \<Rightarrow>
        lowest_energy_modes s0 = [0, 0, 1, 0, 0] \<and>
        (case run Ptr_i2c1_state [AddressAcknowledged, AddressAcknowledged, AddressAcknowledged,
                ByteAvailable 0x00, ByteAvailable 0x0A, StopConditionObserved] s0 of
           Inr s2 \<Rightarrow>
             memory s2 0 = 0x000A \<and> num_of_data_bytes (deref Ptr_i2c1_state s2) = 0 \<and>
             available (deref Ptr_i2c1_state s2) \<and>
             lowest_energy_modes s2 = [0, 0, 0, 0, 0] \<and> event_scheduled s2 = 8
         | Inl f \<Rightarrow> False)
    | _ \<Rightarrow> False)"
proof -
  note pre = system_at_start_ready
  from read_transaction_completes[OF pre, where bs = "[0x00, 0x0A]" and dev = "0x55" and d = 0
      and reg = "0x13" and cb = 8 and j = 1]
  obtain s0 s1 s2 where
    start: "i2c_start I2C1 0x55 read 0 2 0x13 8 system_at_start = Some (Inr s0)"
    and blk: "lowest_energy_modes s0 ! I2C_EM_BLOCK = lowest_energy_modes system_at_start ! I2C_EM_BLOCK + 1"
    and run5: "run Ptr_i2c1_state [AddressAcknowledged, AddressAcknowledged, AddressAcknowledged,
                ByteAvailable 0x00, ByteAvailable 0x0A] s0 = Inr s1"
    and stop: "deliver Ptr_i2c1_state StopConditionObserved s1 = Inr s2"
    and mem: "memory s2 = (memory system_at_start)(0 := (memory system_at_start 0 AND NOT (mask 16)) OR
                pack_msb_first [0x00, 0x0A])"
    and fin: "num_of_data_bytes (deref Ptr_i2c1_state s2) = 0" "available (deref Ptr_i2c1_state s2)"
      "lowest_energy_modes s2 = lowest_energy_modes system_at_start"
      "event_scheduled s2 = add_scheduled_event 8 (event_scheduled system_at_start)"
    by auto
  have r6: "run Ptr_i2c1_state [AddressAcknowledged, AddressAcknowledged, AddressAcknowledged,
                ByteAvailable 0x00, ByteAvailable 0x0A, StopConditionObserved] s0 = Inr s2"
    using run_append[of Ptr_i2c1_state "[AddressAcknowledged, AddressAcknowledged, AddressAcknowledged,
                ByteAvailable 0x00, ByteAvailable 0x0A]" "[StopConditionObserved]" s0] run5 stop
    by simp
  have m0: "lowest_energy_modes s0 = [0, 0, 1, 0, 0]"
    using start by (auto simp: start_defs hw_write_def Let_def)
  have v: "memory s2 0 = 0x000A"
    unfolding mem by (simp add: system_at_start_def)
  show ?thesis
    using pre start r6 m0 v fin
    by (simp add: system_at_start_def add_scheduled_event_def)
qed

text \<open>
  The claim as stated covers every \<open>N\<close> from 1 on. A read of five bytes stops at
  its first byte: the shift by \<open>8 * 4\<close> bits of a 32-bit value is undefined, and
  no word of 32 bits holds five bytes.
\<close>

theorem read_of_five_bytes_counterexample:
  "(case i2c_start I2C1 0x55 read 0 5 0x13 8 system_at_start of
      Some (Inr s0) \<Rightarrow>
        run Ptr_i2c1_state [AddressAcknowledged, AddressAcknowledged, AddressAcknowledged,
          ByteAvailable 1, ByteAvailable 2, ByteAvailable 3, ByteAvailable 4, ByteAvailable 5,
          StopConditionObserved] s0 = Inl UndefinedBehaviour
    | _ \<Rightarrow> False)"
  by (simp add: start_defs handler_defs)

text \<open>
  Claim C7, as amended. The buffer is one 32-bit word, so a remaining count addresses a
  byte of it only from 1 to 4. An acknowledge in \<open>write_data\<close> with such a count
  decrements the count and writes to \<open>TXDATA\<close> the buffer byte the new count
  indexes; when the count has reached zero it also issues the stop command and moves to
  \<open>recieve_data\<close>, otherwise it stays in \<open>write_data\<close>. A whole write of 1 to
  4 bytes, from \<open>i2c_start\<close> through the acknowledge of the address and one
  acknowledge per byte, sends the register address, then the bytes from the highest to
  byte 0, then the stop command, and ends in \<open>recieve_data\<close> with no bytes
  remaining; a write of one byte is there after the second acknowledge.
\<close>

theorem write_data_acknowledge:
  "(current_state (deref p s) = write_data \<and>
    num_of_data_bytes (deref p s) = of_nat (Suc k) \<and> k < 4 \<longrightarrow>
      (\<exists>s'. deliver p AddressAcknowledged s = Inr s' \<and>
            num_of_data_bytes (deref p s') = of_nat k \<and> memory s' = memory s \<and>
            current_state (deref p s') = (if k = 0 then recieve_data else write_data) \<and>
            reg_writes s' = reg_writes s @
              (i2cx (deref p s), TXDATA (drop_bit (8 * k) (memory s (data (deref p s))) AND 0xff)) #
              (if k = 0 then [(i2cx (deref p s), CMD I2C_CMD_STOP)] else []))) \<and>
   (available (deref p s) \<and> bus_idle s (controller_of p) \<and>
    energy_modes_ok (lowest_energy_modes s) \<and> votes_nonneg (lowest_energy_modes s) \<and>
    lowest_energy_modes s ! I2C_EM_BLOCK < 4 \<and> k < 4 \<longrightarrow>
      (\<exists>s0 s'. i2c_start (controller_of p) dev write d (of_nat (Suc k)) reg cb s = Some (Inr s0) \<and>
            run p (AddressAcknowledged # replicate (Suc k) AddressAcknowledged) s0 = Inr s' \<and>
            current_state (deref p s') = recieve_data \<and>
            num_of_data_bytes (deref p s') = 0 \<and> \<not> available (deref p s') \<and>
            reg_writes s' = reg_writes s @
              [(controller_of p, CMD I2C_CMD_START), (controller_of p, TXDATA (push_bit 1 dev)),
               (controller_of p, TXDATA reg)] @
              map (\<lambda>b. (controller_of p, TXDATA b)) (tx_bytes (Suc k) (memory s d)) @
              [(controller_of p, CMD I2C_CMD_STOP)]))"
proof (intro conjI impI)
  assume a: "current_state (deref p s) = write_data \<and>
    num_of_data_bytes (deref p s) = of_nat (Suc k) \<and> k < 4"
  then have st: "current_state (deref p s) = write_data"
    and n: "num_of_data_bytes (deref p s) = of_nat (Suc k)" and k: "k < 4" by auto
  note step = Ack_Func_write_data[OF st n k]
  show "\<exists>s'. deliver p AddressAcknowledged s = Inr s' \<and>
            num_of_data_bytes (deref p s') = of_nat k \<and> memory s' = memory s \<and>
            current_state (deref p s') = (if k = 0 then recieve_data else write_data) \<and>
            reg_writes s' = reg_writes s @
              (i2cx (deref p s), TXDATA (drop_bit (8 * k) (memory s (data (deref p s))) AND 0xff)) #
              (if k = 0 then [(i2cx (deref p s), CMD I2C_CMD_STOP)] else [])"
    using step st by (cases p; cases "k = 0") simp_all
next
  assume a: "available (deref p s) \<and> bus_idle s (controller_of p) \<and>
    energy_modes_ok (lowest_energy_modes s) \<and> votes_nonneg (lowest_energy_modes s) \<and>
    lowest_energy_modes s ! I2C_EM_BLOCK < 4 \<and> k < 4"
  then have av: "available (deref p s)" and idle: "bus_idle s (controller_of p)"
    and ok: "energy_modes_ok (lowest_energy_modes s)" and nn: "votes_nonneg (lowest_energy_modes s)"
    and room: "lowest_energy_modes s ! I2C_EM_BLOCK < 4" and k: "k < 4" by auto
  let ?c = "controller_of p"
  let ?modes = "lowest_energy_modes s"
  define s0 where "s0 = assign p
        \<lparr>i2cx = ?c, device_address = dev, available = False, mode = write,
         num_of_data_bytes = of_nat (Suc k), desired_register_address = reg, data = d,
         I2C_CB = cb, current_state = initialize_device_write\<rparr>
        (s\<lparr>lowest_energy_modes := ?modes[I2C_EM_BLOCK := ?modes ! I2C_EM_BLOCK + 1],
           reg_writes := reg_writes s @ [(?c, CMD I2C_CMD_START), (?c, TXDATA (push_bit 1 dev))]\<rparr>)"
  have start: "i2c_start ?c dev write d (of_nat (Suc k)) reg cb s = Some (Inr s0)"
    unfolding s0_def by (rule i2c_start_succeeds[OF av idle ok nn room])
  obtain swr where ack: "Ack_Func p s0 = Inr swr"
    and wr: "current_state (deref p swr) = write_data"
    and wr_n: "num_of_data_bytes (deref p swr) = of_nat (Suc k)"
    and wr_d: "data (deref p swr) = d" and wr_c: "i2cx (deref p swr) = ?c"
    and wr_av: "\<not> available (deref p swr)" and wr_mem: "memory swr = memory s"
    and wr_regs: "reg_writes swr = reg_writes s @
          [(?c, CMD I2C_CMD_START), (?c, TXDATA (push_bit 1 dev)), (?c, TXDATA reg)]"
    unfolding s0_def by (cases p) (simp_all add: handler_defs)
  define s' where "s' = assign p ((deref p swr)\<lparr>num_of_data_bytes := 0, current_state := recieve_data\<rparr>)
            (swr\<lparr>reg_writes := reg_writes swr @
                 map (\<lambda>b. (i2cx (deref p swr), TXDATA b))
                     (tx_bytes (Suc k) (memory swr (data (deref p swr)))) @
                 [(i2cx (deref p swr), CMD I2C_CMD_STOP)]\<rparr>)"
  have loop: "run p (replicate (Suc k) AddressAcknowledged) swr = Inr s'"
    unfolding s'_def by (rule write_loop[OF wr wr_n k])
  have whole: "run p (AddressAcknowledged # replicate (Suc k) AddressAcknowledged) s0 = Inr s'"
    using ack loop by simp
  have fin: "current_state (deref p s') = recieve_data" "num_of_data_bytes (deref p s') = 0"
    "\<not> available (deref p s')"
    "reg_writes s' = reg_writes s @
              [(?c, CMD I2C_CMD_START), (?c, TXDATA (push_bit 1 dev)), (?c, TXDATA reg)] @
              map (\<lambda>b. (?c, TXDATA b)) (tx_bytes (Suc k) (memory s d)) @
              [(?c, CMD I2C_CMD_STOP)]"
    using wr_d wr_c wr_av wr_mem wr_regs unfolding s'_def by (cases p; simp)+
  from start whole fin
  show "\<exists>s0 s'. i2c_start ?c dev write d (of_nat (Suc k)) reg cb s = Some (Inr s0) \<and>
            run p (AddressAcknowledged # replicate (Suc k) AddressAcknowledged) s0 = Inr s' \<and>
            current_state (deref p s') = recieve_data \<and>
            num_of_data_bytes (deref p s') = 0 \<and> \<not> available (deref p s') \<and>
            reg_writes s' = reg_writes s @
              [(?c, CMD I2C_CMD_START), (?c, TXDATA (push_bit 1 dev)), (?c, TXDATA reg)] @
              map (\<lambda>b. (?c, TXDATA b)) (tx_bytes (Suc k) (memory s d)) @
              [(?c, CMD I2C_CMD_STOP)]"
    by blast
qed

theorem write_data_acknowledge_witness:
  "available (deref Ptr_i2c1_state (system_at_start\<lparr>memory := (\<lambda>a. 0x11)\<rparr>)) \<and>
   (case i2c_start I2C1 0x55 write 0 1 0x0B 0 (system_at_start\<lparr>memory := (\<lambda>a. 0x11)\<rparr>) of
      Some (Inr s0) \<Rightarrow>
        (case run Ptr_i2c1_state [AddressAcknowledged, AddressAcknowledged] s0 of
           Inr s' \<Rightarrow>
             current_state (deref Ptr_i2c1_state s') = recieve_data \<and>
             num_of_data_bytes (deref Ptr_i2c1_state s') = 0 \<and>
             reg_writes s' = [(I2C1, CMD I2C_CMD_START), (I2C1, TXDATA 0xAA), (I2C1, TXDATA 0x0B),
                              (I2C1, TXDATA 0x11), (I2C1, CMD I2C_CMD_STOP)]
         | Inl f \<Rightarrow> False)
    | _ \<Rightarrow> False)"
proof -
  let ?s = "system_at_start\<lparr>memory := (\<lambda>a. 0x11)\<rparr>"
  have pre: "available (deref Ptr_i2c1_state ?s) \<and> bus_idle ?s (controller_of Ptr_i2c1_state) \<and>
    energy_modes_ok (lowest_energy_modes ?s) \<and> votes_nonneg (lowest_energy_modes ?s) \<and>
    lowest_energy_modes ?s ! I2C_EM_BLOCK < 4 \<and> (0::nat) < 4"
    by (simp add: system_at_start_def i2c_state_at_start_def energy_modes_ok_def
        votes_nonneg_5 I2C_EM_BLOCK_def EM_defs)
  from write_data_acknowledge[where p = Ptr_i2c1_state and s = ?s and k = 0 and dev = "0x55"
      and d = 0 and reg = "0x0B" and cb = 0] pre
  obtain s0 s' where
    start: "i2c_start I2C1 0x55 write 0 1 0x0B 0 ?s = Some (Inr s0)"
    and r: "run Ptr_i2c1_state [AddressAcknowledged, AddressAcknowledged] s0 = Inr s'"
    and fin: "current_state (deref Ptr_i2c1_state s') = recieve_data"
      "num_of_data_bytes (deref Ptr_i2c1_state s') = 0"
    and regs: "reg_writes s' = reg_writes ?s @
              [(I2C1, CMD I2C_CMD_START), (I2C1, TXDATA (push_bit 1 0x55)), (I2C1, TXDATA 0x0B)] @
              map (\<lambda>b. (I2C1, TXDATA b)) (tx_bytes (Suc 0) (memory ?s 0)) @
              [(I2C1, CMD I2C_CMD_STOP)]"
    by auto
  have regs': "reg_writes s' = [(I2C1, CMD I2C_CMD_START), (I2C1, TXDATA 0xAA), (I2C1, TXDATA 0x0B),
                              (I2C1, TXDATA 0x11), (I2C1, CMD I2C_CMD_STOP)]"
    unfolding regs by (simp add: system_at_start_def)
  from pre start r fin regs' show ?thesis by simp
qed

text \<open>
  The claim as stated covers every acknowledge in \<open>write_data\<close>. A write of five
  bytes reaches that state with a count of five, and its first data acknowledge asks for
  byte 4 of the word: a shift by 32 bits, which is undefined; no byte is sent.
\<close>

theorem write_of_five_bytes_counterexample:
  "(case i2c_start I2C1 0x55 write 0 5 0x0B 0 system_at_start of
      Some (Inr s0) \<Rightarrow>
        (case deliver Ptr_i2c1_state AddressAcknowledged s0 of
           Inr s \<Rightarrow> current_state (deref Ptr_i2c1_state s) = write_data \<and>
                    num_of_data_bytes (deref Ptr_i2c1_state s) = 5 \<and>
                    deliver Ptr_i2c1_state AddressAcknowledged s = Inl UndefinedBehaviour
         | Inl f \<Rightarrow> False)
    | _ \<Rightarrow> False)"
  by (simp add: start_defs handler_defs)

end
